theory Spec2Isabelle
  imports Complex_Main "HOL-Library.Multiset"
begin

chapter \<open>The discretisation pipeline: sortlastcol, argmin and Pipe3\<close>

text \<open>
  The pipeline has three filters. \<^verbatim>\<open>sortlastcol.ts\<close> sorts the rows of a table by
  their last column, \<^verbatim>\<open>argmin.ts\<close> appends to every row the upper bound of the
  partition it falls into, and \<^verbatim>\<open>Pipe3.ts\<close> turns that column into band labels.
  The results of \<^verbatim>\<open>argmin.ts\<close> depend on its arithmetic, so its numbers are
  modelled as what they are, IEEE 754 doubles: every operation rounds its exact result
  to the nearest double, and NaN and the infinities are values. \<^verbatim>\<open>sortlastcol.ts\<close>
  and \<^verbatim>\<open>Pipe3.ts\<close> only compare numbers and compute no new ones; there a number
  is the real it denotes. Counters and indices, which the source only ever increments
  and decrements by one, are integers.
\<close>

section \<open>JavaScript numbers\<close>

text \<open>
  A JavaScript number is a double: NaN, one of the two infinities, or a finite value.
  The two zeros are not told apart; the program never divides by a zero that could be
  negative (its only divisors are counters and sums with a positive constant), it
  compares the zeros as equal and prints both as \<^verbatim>\<open>0\<close>.
\<close>

datatype number = NaN | PInf | MInf | Fin real

text \<open>
  Rounding to the nearest double, ties to the even significand. A double has 53
  significant bits, so the unit in the last place of a real \<open>x\<close> with
  \<^verbatim>\<open>2^e <= |x| < 2^(e+1)\<close> is \<^verbatim>\<open>2^(e-52)\<close>, and never below \<^verbatim>\<open>2^-1074\<close>, the
  spacing of the subnormal numbers. \<open>nearest_even\<close> rounds a real to the nearest
  integer, a tie to the even one. A result that reaches \<^verbatim>\<open>2^1024\<close> in magnitude
  overflows to an infinity.
\<close>

definition ulp_exponent :: "real \<Rightarrow> int" where
  "ulp_exponent x = max (\<lfloor>log 2 \<bar>x\<bar>\<rfloor> - 52) (- 1074)"

definition nearest_even :: "real \<Rightarrow> int" where
  "nearest_even z =
     (let f = \<lfloor>z\<rfloor>; d = z - of_int f
      in if d < 1 / 2 then f else if 1 / 2 < d then f + 1 else if even f then f else f + 1)"

definition round_double :: "real \<Rightarrow> number" where
  "round_double x =
     (if x = 0 then Fin 0
      else
        let q = ulp_exponent x;
            y = of_int (nearest_even (x / 2 powi q)) * 2 powi q
        in if 2 ^ 1024 \<le> \<bar>y\<bar> then (if 0 < x then PInf else MInf) else Fin y)"

text \<open>
  The operators \<^verbatim>\<open>+\<close>, \<^verbatim>\<open>-\<close>, \<^verbatim>\<open>*\<close>, \<^verbatim>\<open>/\<close>, \<^verbatim>\<open>Math.sqrt\<close> and \<^verbatim>\<open><\<close> on numbers. On
  finite operands each arithmetic operator rounds the exact result; the other cases
  are those of IEEE 754. \<^verbatim>\<open>a > b\<close> is \<open>fless b a\<close>; every comparison with NaN is
  false.
\<close>

fun fneg :: "number \<Rightarrow> number" where
  "fneg (Fin x) = Fin (- x)"
| "fneg PInf = MInf"
| "fneg MInf = PInf"
| "fneg NaN = NaN"

fun fadd :: "number \<Rightarrow> number \<Rightarrow> number" where
  "fadd (Fin x) (Fin y) = round_double (x + y)"
| "fadd NaN b = NaN"
| "fadd a NaN = NaN"
| "fadd PInf MInf = NaN"
| "fadd MInf PInf = NaN"
| "fadd PInf b = PInf"
| "fadd a PInf = PInf"
| "fadd MInf b = MInf"
| "fadd a MInf = MInf"

definition fsub :: "number \<Rightarrow> number \<Rightarrow> number" where
  "fsub a b = fadd a (fneg b)"

fun fmul :: "number \<Rightarrow> number \<Rightarrow> number" where
  "fmul (Fin x) (Fin y) = round_double (x * y)"
| "fmul NaN b = NaN"
| "fmul a NaN = NaN"
| "fmul (Fin x) PInf = (if x = 0 then NaN else if 0 < x then PInf else MInf)"
| "fmul (Fin x) MInf = (if x = 0 then NaN else if 0 < x then MInf else PInf)"
| "fmul PInf (Fin y) = (if y = 0 then NaN else if 0 < y then PInf else MInf)"
| "fmul MInf (Fin y) = (if y = 0 then NaN else if 0 < y then MInf else PInf)"
| "fmul PInf PInf = PInf"
| "fmul PInf MInf = MInf"
| "fmul MInf PInf = MInf"
| "fmul MInf MInf = PInf"

fun fdiv :: "number \<Rightarrow> number \<Rightarrow> number" where
  "fdiv (Fin x) (Fin y) =
     (if y = 0 then (if x = 0 then NaN else if 0 < x then PInf else MInf)
      else round_double (x / y))"
| "fdiv NaN b = NaN"
| "fdiv a NaN = NaN"
| "fdiv (Fin x) PInf = Fin 0"
| "fdiv (Fin x) MInf = Fin 0"
| "fdiv PInf (Fin y) = (if 0 \<le> y then PInf else MInf)"
| "fdiv MInf (Fin y) = (if 0 \<le> y then MInf else PInf)"
| "fdiv PInf b = NaN"
| "fdiv MInf b = NaN"

fun fsqrt :: "number \<Rightarrow> number" where
  "fsqrt (Fin x) = (if x < 0 then NaN else round_double (sqrt x))"
| "fsqrt PInf = PInf"
| "fsqrt MInf = NaN"
| "fsqrt NaN = NaN"

fun fless :: "number \<Rightarrow> number \<Rightarrow> bool" where
  "fless (Fin x) (Fin y) = (x < y)"
| "fless NaN b = False"
| "fless a NaN = False"
| "fless MInf MInf = False"
| "fless MInf b = True"
| "fless a MInf = False"
| "fless PInf b = False"
| "fless (Fin x) PInf = True"

text \<open>The real a finite number denotes, and the test for being finite.\<close>

fun the_real :: "number \<Rightarrow> real" where
  "the_real (Fin x) = x"
| "the_real a = 0"

fun is_fin :: "number \<Rightarrow> bool" where
  "is_fin (Fin x) = True"
| "is_fin a = False"

section \<open>argmin.ts: the statistics accumulator\<close>

text \<open>
  The aggregate \<^verbatim>\<open>{ count, mean, M2, sd, max, min }\<close> of \<^verbatim>\<open>argmin.ts\<close>. The fields
  \<^verbatim>\<open>count\<close>, \<^verbatim>\<open>max\<close> and \<^verbatim>\<open>min\<close> carry the suffix \<open>_a\<close> because the plain names
  are constants of the library. \<open>epsilon\<close> is the source's \<^verbatim>\<open>10**-32\<close> and \<open>ten32\<close>
  its \<^verbatim>\<open>10**32\<close>, each taken as the double nearest to the power.
\<close>

definition epsilon :: number where
  "epsilon = round_double (1 / 10 ^ 32)"

definition ten32 :: number where
  "ten32 = round_double (10 ^ 32)"

record aggr =
  count_a :: int
  mean :: number
  M2 :: number
  sd :: number
  max_a :: number
  min_a :: number

text \<open>
  \<^verbatim>\<open>numInc(aggr, value)\<close>: the statements of the source in their order; every later
  statement reads the fields already updated. The division is by the new count, which
  is zero when the count was \<open>-1\<close> before; the quotient is then an infinity or NaN.
\<close>

definition numInc :: "aggr \<Rightarrow> number \<Rightarrow> aggr" where
  "numInc aggr val =
     (let count' = count_a aggr + 1;
          delta = fsub val (mean aggr);
          mean' = fadd (mean aggr) (fdiv delta (Fin (of_int count')));
          M2' = fadd (M2 aggr) (fmul delta (fsub val mean'));
          max' = (if fless (max_a aggr) val then val else max_a aggr);
          min' = (if fless val (min_a aggr) then val else min_a aggr);
          sd' = (if count' \<ge> 2 then fsqrt (fdiv M2' (fadd (Fin (of_int (count' - 1))) epsilon))
                 else sd aggr)
      in \<lparr>count_a = count', mean = mean', M2 = M2', sd = sd', max_a = max', min_a = min'\<rparr>)"

text \<open>
  \<^verbatim>\<open>numDec(aggr, value)\<close>: the early return at \<^verbatim>\<open>count == 1\<close>, then the inverse
  update. \<^verbatim>\<open>max\<close> and \<^verbatim>\<open>min\<close> are not touched, and \<^verbatim>\<open>sd\<close> is recomputed only while
  the new count is at least two.
\<close>

definition numDec :: "aggr \<Rightarrow> number \<Rightarrow> aggr" where
  "numDec aggr val =
     (if count_a aggr = 1 then aggr
      else
        let count' = count_a aggr - 1;
            delta = fsub val (mean aggr);
            mean' = fsub (mean aggr) (fdiv delta (Fin (of_int count')));
            M2' = fsub (M2 aggr) (fmul delta (fsub val mean'));
            sd' = (if count' \<ge> 2 then fsqrt (fdiv M2' (fadd (Fin (of_int (count' - 1))) epsilon))
                   else sd aggr)
        in aggr\<lparr>count_a := count', mean := mean', M2 := M2', sd := sd'\<rparr>)"

text \<open>The aggregate that \<^verbatim>\<open>getStdDev\<close> starts from.\<close>

definition init_aggr :: aggr where
  "init_aggr = \<lparr>count_a = 0, mean = Fin 0, M2 = Fin 0, sd = Fin 0,
                 max_a = fmul (Fin (- 1)) ten32, min_a = ten32\<rparr>"

subsection \<open>Sequences of calls and the multiset they hold\<close>

text \<open>
  An interleaving of calls is a list of operations; \<open>run\<close> applies them in order,
  \<open>states\<close> lists the aggregate after each of them, and \<open>held\<close> is the multiset of
  values inserted and not yet removed.
\<close>

datatype op = Insert number | Remove number

fun apply_op :: "aggr \<Rightarrow> op \<Rightarrow> aggr" where
  "apply_op a (Insert v) = numInc a v"
| "apply_op a (Remove v) = numDec a v"

fun run :: "aggr \<Rightarrow> op list \<Rightarrow> aggr" where
  "run a [] = a"
| "run a (x # xs) = run (apply_op a x) xs"

fun states :: "aggr \<Rightarrow> op list \<Rightarrow> aggr list" where
  "states a [] = []"
| "states a (x # xs) = apply_op a x # states (apply_op a x) xs"


text \<open>\<open>below2 a ops\<close>: the count is below two before, during and after the calls.\<close>

fun below2 :: "aggr \<Rightarrow> op list \<Rightarrow> bool" where
  "below2 a [] = (count_a a < 2)"
| "below2 a (x # xs) = (count_a a < 2 \<and> below2 (apply_op a x) xs)"

text \<open>
  \<open>sd_formula a\<close> is the value the source assigns to \<^verbatim>\<open>sd\<close> from the fields \<^verbatim>\<open>M2\<close>
  and \<^verbatim>\<open>count\<close> of \<open>a\<close>. \<open>sd_last s0 as\<close> is that value for the last aggregate of the
  list \<open>as\<close> whose count is at least two, and \<open>s0\<close> when there is none.
\<close>

definition sd_formula :: "aggr \<Rightarrow> number" where
  "sd_formula a = fsqrt (fdiv (M2 a) (fadd (Fin (of_int (count_a a - 1))) epsilon))"

fun sd_last :: "number \<Rightarrow> aggr list \<Rightarrow> number" where
  "sd_last s0 [] = s0"
| "sd_last s0 (a # as) = sd_last (if 2 \<le> count_a a then sd_formula a else s0) as"

text \<open>
  \<open>well_used a M ops\<close>: every value is finite and every removal takes a value that is
  held, at a moment when the count is at least two (so that \<^verbatim>\<open>numDec\<close> does not
  return early).
\<close>

fun well_used :: "aggr \<Rightarrow> real multiset \<Rightarrow> op list \<Rightarrow> bool" where
  "well_used a M [] = True"
| "well_used a M (Insert v # xs) = (is_fin v \<and> well_used (numInc a v) (add_mset (the_real v) M) xs)"
| "well_used a M (Remove v # xs) =
     (is_fin v \<and> 2 \<le> count_a a \<and> the_real v \<in># M \<and> well_used (numDec a v) (M - {#the_real v#}) xs)"

text \<open>
  \<open>unrounded a ops\<close>: in every call of the sequence the new \<^verbatim>\<open>mean\<close> and the new
  \<^verbatim>\<open>M2\<close> are finite and are the exact values of the source's two expressions, that
  is, no rounding error enters them.
\<close>

definition unrounded_inc :: "aggr \<Rightarrow> number \<Rightarrow> bool" where
  "unrounded_inc a v \<longleftrightarrow>
     mean (numInc a v) =
       Fin (the_real (mean a) + (the_real v - the_real (mean a)) / real_of_int (count_a a + 1)) \<and>
     M2 (numInc a v) =
       Fin (the_real (M2 a) + (the_real v - the_real (mean a)) * (the_real v - the_real (mean (numInc a v))))"

definition unrounded_dec :: "aggr \<Rightarrow> number \<Rightarrow> bool" where
  "unrounded_dec a v \<longleftrightarrow>
     mean (numDec a v) =
       Fin (the_real (mean a) - (the_real v - the_real (mean a)) / real_of_int (count_a a - 1)) \<and>
     M2 (numDec a v) =
       Fin (the_real (M2 a) - (the_real v - the_real (mean a)) * (the_real v - the_real (mean (numDec a v))))"

fun unrounded :: "aggr \<Rightarrow> op list \<Rightarrow> bool" where
  "unrounded a [] = True"
| "unrounded a (Insert v # xs) = (unrounded_inc a v \<and> unrounded (numInc a v) xs)"
| "unrounded a (Remove v # xs) = (unrounded_dec a v \<and> unrounded (numDec a v) xs)"






text \<open>The sequences of calls looked at below.\<close>

definition ops_drift :: "op list" where
  "ops_drift = [Insert (Fin 1), Remove (Fin 1), Insert (Fin 2), Insert (Fin 3)]"

definition ops_cancel :: "op list" where
  "ops_cancel = [Insert (Fin (2 ^ 27)), Insert (Fin 0), Insert (Fin 1), Remove (Fin (2 ^ 27))]"

definition ops_ok :: "op list" where
  "ops_ok = [Insert (Fin 0), Insert (Fin 10), Insert (Fin 20), Remove (Fin 0)]"

definition ops_stale :: "op list" where
  "ops_stale = [Insert (Fin 0), Insert (Fin 10), Remove (Fin 10)]"

section \<open>argmin.ts: the split finder and the partition driver\<close>

text \<open>
  The module-level variables of \<^verbatim>\<open>argmin.ts\<close> that \<^verbatim>\<open>initValues\<close> sets and the rest
  of the program only reads. A row is the list of its numbers; an output line is a row
  together with the cut value printed after it.
\<close>

datatype error = TypeError

record globals =
  rows :: "number list list"
  numRows :: nat
  numCols :: nat
  lastCol :: "number list"
  minBinSize :: nat
  minRise :: number

type_synonym line = "number list \<times> nat"

definition COHEN :: number where
  "COHEN = round_double (3 / 10)"

text \<open>
  \<^verbatim>\<open>getStdDev(lo, hi)\<close> feeds \<^verbatim>\<open>lastCol[lo]\<close>, ..., \<^verbatim>\<open>lastCol[hi - 1]\<close> to a fresh
  aggregate. Every call of the program has \<open>hi \<le> numRows\<close>, so the reads are in range.
\<close>

definition getStdDev :: "number list \<Rightarrow> nat \<Rightarrow> nat \<Rightarrow> aggr" where
  "getStdDev col lo hi = foldl numInc init_aggr (map (\<lambda>i. col ! i) [lo..<hi])"

text \<open>
  \<^verbatim>\<open>initValues()\<close>. Reading \<^verbatim>\<open>rows[0].length\<close> of an empty table throws. The rows come
  from splitting text lines, so each has at least one field; the table is taken to be
  rectangular, so that \<^verbatim>\<open>row[numCols - 1]\<close> is a number in every row.
  \<^verbatim>\<open>Math.floor(Math.sqrt(numRows))\<close> is the floor of the exact root: a table has fewer
  than \<^verbatim>\<open>2^32\<close> rows, and below \<^verbatim>\<open>2^52\<close> the root of an integer that is not a square
  is further from the next integer than the rounding of \<^verbatim>\<open>Math.sqrt\<close> can move it.
\<close>

definition initValues :: "number list list \<Rightarrow> error + globals" where
  "initValues rs =
     (case rs of
        [] \<Rightarrow> Inl TypeError
      | r0 # _ \<Rightarrow>
          let n = length rs;
              nc = length r0;
              mbs = nat \<lfloor>sqrt (real n)\<rfloor>;
              col = map (\<lambda>row. row ! (nc - 1)) rs;
              totalStdDev = sd (getStdDev col 0 n)
          in Inr \<lparr>rows = rs, numRows = n, numCols = nc, lastCol = col,
                   minBinSize = mbs, minRise = fmul COHEN totalStdDev\<rparr>)"

text \<open>
  \<^verbatim>\<open>getTotalVariance(aggrA, aggrB)\<close>, the weighted sum of the two standard deviations.
  The literal \<^verbatim>\<open>0.0001\<close> is the double nearest to it, as is \<^verbatim>\<open>1.05\<close> below.
\<close>

definition getTotalVariance :: "aggr \<Rightarrow> aggr \<Rightarrow> number" where
  "getTotalVariance aggrA aggrB =
     (let count = fadd (Fin (of_int (count_a aggrA + count_a aggrB))) (round_double (1 / 10000));
          stdDevA = fmul (fdiv (Fin (of_int (count_a aggrA))) count) (sd aggrA);
          stdDevB = fmul (fdiv (Fin (of_int (count_a aggrB))) count) (sd aggrB)
      in fadd stdDevA stdDevB)"

text \<open>
  \<^verbatim>\<open>argmin(min, max)\<close>. The local variables of the scan are the fields of \<open>scan\<close>;
  \<^verbatim>\<open>cut\<close> starts undefined (\<open>None\<close>), and \<^verbatim>\<open>cut + 1\<close> is then NaN, the result \<open>None\<close>.
  \<open>argmin_step\<close> is one iteration of the loop over \<^verbatim>\<open>split\<close>.
\<close>

record scan =
  belowSplitAggr :: aggr
  aboveSplitAggr :: aggr
  best :: number
  cut :: "nat option"

definition argmin_step :: "globals \<Rightarrow> scan \<Rightarrow> nat \<Rightarrow> scan" where
  "argmin_step g st split =
     (let val = lastCol g ! split;
          below = numInc (belowSplitAggr st) val;
          above = numDec (aboveSplitAggr st) val;
          st' = st\<lparr>belowSplitAggr := below, aboveSplitAggr := above\<rparr>
      in if count_a below \<ge> int (minBinSize g) \<and> count_a above \<ge> int (minBinSize g) then
           if fless (minRise g) (fsub (max_a below) (min_a below)) then
             if fless (minRise g) (fsub (max_a above) (min_a above)) then
               let tmp = fmul (getTotalVariance below above) (round_double (105 / 100))
               in if fless tmp (best st') then st'\<lparr>cut := Some split, best := tmp\<rparr> else st'
             else st'
           else st'
         else st')"

definition argmin_start :: "globals \<Rightarrow> nat \<Rightarrow> scan" where
  "argmin_start g mn =
     (let above = getStdDev (lastCol g) mn (numRows g);
          below = getStdDev (lastCol g) 0 0
      in \<lparr>belowSplitAggr = below, aboveSplitAggr = above, best = sd above, cut = None\<rparr>)"

definition argmin :: "globals \<Rightarrow> nat \<Rightarrow> nat \<Rightarrow> nat option" where
  "argmin g mn mx =
     (if int mx - int mn > 2 * int (minBinSize g)
      then map_option Suc (cut (foldl (argmin_step g) (argmin_start g mn) [mn..<mx]))
      else None)"

text \<open>
  The scan only ever records an index it has visited, so a result of \<open>argmin\<close> lies
  beyond the lower end of its range. The driver's loop relies on this to advance.
\<close>

lemma cut_foldl:
  "cut (foldl (argmin_step g) st xs) = cut st \<or> (\<exists>s \<in> set xs. cut (foldl (argmin_step g) st xs) = Some s)"
proof (induction xs arbitrary: st)
  case Nil
  then show ?case by simp
next
  case (Cons x xs)
  have c: "cut (argmin_step g st x) = cut st \<or> cut (argmin_step g st x) = Some x"
    by (simp add: argmin_step_def Let_def)
  from Cons.IH [of "argmin_step g st x"] c show ?case by auto
qed

lemma argmin_bounds: "argmin g mn mx = Some c \<Longrightarrow> mn < c \<and> c \<le> mx"
proof -
  assume a: "argmin g mn mx = Some c"
  then obtain s where s: "cut (foldl (argmin_step g) (argmin_start g mn) [mn..<mx]) = Some s" and c: "c = Suc s"
    by (auto simp: argmin_def split: if_splits)
  have "cut (argmin_start g mn) = None" by (simp add: argmin_start_def Let_def)
  with cut_foldl [of g "argmin_start g mn" "[mn..<mx]"] s have "s \<in> set [mn..<mx]" by auto
  then show ?thesis using c by auto
qed

text \<open>
  The first loop of \<^verbatim>\<open>calcSplits\<close>, with its variables \<^verbatim>\<open>i\<close>, \<^verbatim>\<open>cut\<close> and
  \<^verbatim>\<open>prevCut\<close>. When \<open>argmin\<close> yields NaN the inner loop prints nothing, \<^verbatim>\<open>i\<close>
  becomes NaN and the loop ends with \<^verbatim>\<open>prevCut\<close> holding the cut before. Otherwise the
  rows from \<^verbatim>\<open>i\<close> to \<^verbatim>\<open>cut - 1\<close> are printed and \<^verbatim>\<open>i\<close> continues at \<^verbatim>\<open>cut\<close>.
  \<open>None\<close> stands for an undefined or NaN \<^verbatim>\<open>prevCut\<close>: the second loop then does not
  run. The header line printed before the loops is not part of the model.
\<close>

function main_loop :: "globals \<Rightarrow> nat \<Rightarrow> nat option \<Rightarrow> nat option \<Rightarrow> line list \<Rightarrow> nat option \<times> line list" where
  "main_loop g i ct prevCut out =
     (if i < numRows g then
        (if int (numRows g) - int i > int (minBinSize g) then
           (case argmin g i (numRows g) of
              None \<Rightarrow> (ct, out)
            | Some c \<Rightarrow> main_loop g c (Some c) ct (out @ map (\<lambda>j. (rows g ! j, c)) [i..<c]))
         else main_loop g (i + 1) ct prevCut out)
      else (prevCut, out))"
  by pat_completeness auto
termination
proof (relation "measure (\<lambda>(g, i, ct, prevCut, out). numRows g - i)")
  show "wf (measure (\<lambda>(g, i, ct, prevCut, out). numRows g - i))" by simp
next
  fix g i ct prevCut out c
  assume lt: "i < numRows g" and "argmin g i (numRows g) = Some c"
  then have "i < c \<and> c \<le> numRows g" by (simp add: argmin_bounds)
  with lt show "((g, c, Some c, ct, out @ map (\<lambda>j. (rows g ! j, c)) [i..<c]), (g, i, ct, prevCut, out))
      \<in> measure (\<lambda>(g, i, ct, prevCut, out). numRows g - i)"
    by auto
next
  fix g i ct prevCut out
  assume "i < numRows g"
  then show "((g, i + 1, ct, prevCut, out), (g, i, ct, prevCut, out))
      \<in> measure (\<lambda>(g, i, ct, prevCut, out). numRows g - i)"
    by simp
qed
declare main_loop.simps [simp del]

definition calcSplits :: "globals \<Rightarrow> line list" where
  "calcSplits g =
     (let (prevCut, out) = main_loop g 0 (Some 0) None []
      in out @ (case prevCut of
                  None \<Rightarrow> []
                | Some p \<Rightarrow> map (\<lambda>i. (rows g ! i, numRows g)) [p..<numRows g]))"

text \<open>The program: \<^verbatim>\<open>initValues\<close>, then \<^verbatim>\<open>calcSplits\<close>, on the rows read.\<close>

definition argmin_main :: "number list list \<Rightarrow> error + line list" where
  "argmin_main rs = (case initValues rs of Inl e \<Rightarrow> Inl e | Inr g \<Rightarrow> Inr (calcSplits g))"

subsection \<open>What the scan has seen at a split\<close>

text \<open>
  The two aggregates after the iteration for \<^verbatim>\<open>split = s\<close> of a scan that started at
  \<open>mn\<close>, the guard the source evaluates on them, and the cost it compares with
  \<^verbatim>\<open>best\<close>. \<open>lower_part\<close> and \<open>upper_part\<close> are the values of the two partitions the
  split makes of the rows from \<open>mn\<close> to the end of the table.
\<close>

definition below_at :: "globals \<Rightarrow> nat \<Rightarrow> nat \<Rightarrow> aggr" where
  "below_at g mn s = foldl numInc (getStdDev (lastCol g) 0 0) (map (\<lambda>i. lastCol g ! i) [mn..<Suc s])"

definition above_at :: "globals \<Rightarrow> nat \<Rightarrow> nat \<Rightarrow> aggr" where
  "above_at g mn s =
     foldl numDec (getStdDev (lastCol g) mn (numRows g)) (map (\<lambda>i. lastCol g ! i) [mn..<Suc s])"

definition accepted :: "globals \<Rightarrow> nat \<Rightarrow> nat \<Rightarrow> bool" where
  "accepted g mn s \<longleftrightarrow>
     count_a (below_at g mn s) \<ge> int (minBinSize g) \<and>
     count_a (above_at g mn s) \<ge> int (minBinSize g) \<and>
     fless (minRise g) (fsub (max_a (below_at g mn s)) (min_a (below_at g mn s))) \<and>
     fless (minRise g) (fsub (max_a (above_at g mn s)) (min_a (above_at g mn s)))"

definition cost :: "globals \<Rightarrow> nat \<Rightarrow> nat \<Rightarrow> number" where
  "cost g mn s = fmul (getTotalVariance (below_at g mn s) (above_at g mn s)) (round_double (105 / 100))"






subsection \<open>A table of five rows\<close>

text \<open>
  The rows with last column 0, 0, 3, 6, 6, the globals \<^verbatim>\<open>initValues\<close> computes for them,
  the aggregates of the rows up to each split (\<open>low\<close>) and of the rest after each
  removal (\<open>high\<close>), and the states of the scan over the whole table. Doubles that
  are not integers are written as fractions; \<^verbatim>\<open>minRise\<close> is 0.8999999999999999.
\<close>

definition rows5 :: "number list list" where
  "rows5 = [[Fin 0], [Fin 0], [Fin 3], [Fin 6], [Fin 6]]"

definition g5 :: globals where
  "g5 = \<lparr>rows = rows5, numRows = 5, numCols = 1, lastCol = [Fin 0, Fin 0, Fin 3, Fin 6, Fin 6],
         minBinSize = 2, minRise = Fin (2026619832316723 / 2251799813685248)\<rparr>"

definition low1 :: aggr where
  "low1 = \<lparr>count_a = 1, mean = Fin 0, M2 = Fin 0, sd = Fin 0, max_a = Fin 0, min_a = Fin 0\<rparr>"

definition low2 :: aggr where
  "low2 = \<lparr>count_a = 2, mean = Fin 0, M2 = Fin 0, sd = Fin 0, max_a = Fin 0, min_a = Fin 0\<rparr>"

definition low3 :: aggr where
  "low3 = \<lparr>count_a = 3, mean = Fin 1, M2 = Fin 6, sd = Fin (3900231685776981 / 2251799813685248), max_a = Fin 3, min_a = Fin 0\<rparr>"

definition low4 :: aggr where
  "low4 = \<lparr>count_a = 4, mean = Fin (9 / 4), M2 = Fin (99 / 4), sd = Fin (404237659286799 / 140737488355328), max_a = Fin 6, min_a = Fin 0\<rparr>"

definition low5 :: aggr where
  "low5 = \<lparr>count_a = 5, mean = Fin 3, M2 = Fin 36, sd = Fin 3, max_a = Fin 6, min_a = Fin 0\<rparr>"

definition high4 :: aggr where
  "high4 = \<lparr>count_a = 4, mean = Fin (15 / 4), M2 = Fin (99 / 4), sd = Fin (404237659286799 / 140737488355328), max_a = Fin 6, min_a = Fin 0\<rparr>"

definition high3 :: aggr where
  "high3 = \<lparr>count_a = 3, mean = Fin 5, M2 = Fin 6, sd = Fin (3900231685776981 / 2251799813685248), max_a = Fin 6, min_a = Fin 0\<rparr>"

definition high2 :: aggr where
  "high2 = \<lparr>count_a = 2, mean = Fin 6, M2 = Fin 0, sd = Fin 0, max_a = Fin 6, min_a = Fin 0\<rparr>"

definition high1 :: aggr where
  "high1 = \<lparr>count_a = 1, mean = Fin 6, M2 = Fin 0, sd = Fin 0, max_a = Fin 6, min_a = Fin 0\<rparr>"

definition scan0 :: scan where
  "scan0 = \<lparr>belowSplitAggr = init_aggr, aboveSplitAggr = low5, best = Fin 3, cut = None\<rparr>"

definition scan1 :: scan where
  "scan1 = \<lparr>belowSplitAggr = low1, aboveSplitAggr = high4, best = Fin 3, cut = None\<rparr>"

definition scan2 :: scan where
  "scan2 = \<lparr>belowSplitAggr = low2, aboveSplitAggr = high3, best = Fin 3, cut = None\<rparr>"

definition scan3 :: scan where
  "scan3 = \<lparr>belowSplitAggr = low3, aboveSplitAggr = high2, best = Fin (307137102512887 / 281474976710656), cut = Some 2\<rparr>"

definition scan4 :: scan where
  "scan4 = \<lparr>belowSplitAggr = low4, aboveSplitAggr = high1, best = Fin (307137102512887 / 281474976710656), cut = Some 2\<rparr>"

definition scan5 :: scan where
  "scan5 = \<lparr>belowSplitAggr = low5, aboveSplitAggr = high1, best = Fin (307137102512887 / 281474976710656), cut = Some 2\<rparr>"

subsection \<open>A table of three rows\<close>

text \<open>
  The rows with last column 0, 10, 10, the globals \<^verbatim>\<open>initValues\<close> computes for them,
  the aggregates of the rows up to each split (\<open>low\<close>) and of the rest after each
  removal (\<open>high\<close>), and the states of the scan over the whole table. Doubles that
  are not integers are written as fractions; \<^verbatim>\<open>minRise\<close> is 1.7320508075688772.
\<close>

definition rows3 :: "number list list" where
  "rows3 = [[Fin 0], [Fin 10], [Fin 10]]"

definition g3 :: globals where
  "g3 = \<lparr>rows = rows3, numRows = 3, numCols = 1, lastCol = [Fin 0, Fin 10, Fin 10],
         minBinSize = 1, minRise = Fin (3900231685776981 / 2251799813685248)\<rparr>"

definition tlow1 :: aggr where
  "tlow1 = \<lparr>count_a = 1, mean = Fin 0, M2 = Fin 0, sd = Fin 0, max_a = Fin 0, min_a = Fin 0\<rparr>"

definition tlow2 :: aggr where
  "tlow2 = \<lparr>count_a = 2, mean = Fin 5, M2 = Fin 50, sd = Fin (124395540479019 / 17592186044416), max_a = Fin 10, min_a = Fin 0\<rparr>"

definition tlow3 :: aggr where
  "tlow3 = \<lparr>count_a = 3, mean = Fin (7505999378950827 / 1125899906842624), M2 = Fin (2345624805922133 / 35184372088832), sd = Fin (6500386142961635 / 1125899906842624), max_a = Fin 10, min_a = Fin 0\<rparr>"

definition thigh2 :: aggr where
  "thigh2 = \<lparr>count_a = 2, mean = Fin 10, M2 = Fin (- (1 / 70368744177664)), sd = NaN, max_a = Fin 10, min_a = Fin 0\<rparr>"

definition thigh1 :: aggr where
  "thigh1 = \<lparr>count_a = 1, mean = Fin 10, M2 = Fin (- (1 / 70368744177664)), sd = NaN, max_a = Fin 10, min_a = Fin 0\<rparr>"

definition tscan0 :: scan where
  "tscan0 = \<lparr>belowSplitAggr = init_aggr, aboveSplitAggr = tlow3, best = Fin (6500386142961635 / 1125899906842624), cut = None\<rparr>"

definition tscan1 :: scan where
  "tscan1 = \<lparr>belowSplitAggr = tlow1, aboveSplitAggr = thigh2, best = Fin (6500386142961635 / 1125899906842624), cut = None\<rparr>"

definition tscan2 :: scan where
  "tscan2 = \<lparr>belowSplitAggr = tlow2, aboveSplitAggr = thigh1, best = Fin (6500386142961635 / 1125899906842624), cut = None\<rparr>"

definition tscan3 :: scan where
  "tscan3 = \<lparr>belowSplitAggr = tlow3, aboveSplitAggr = thigh1, best = Fin (6500386142961635 / 1125899906842624), cut = None\<rparr>"

subsection \<open>A table of seven rows\<close>

text \<open>
  The rows with last column 4, 6, 8, 9, 10, 12, 14, the globals \<^verbatim>\<open>initValues\<close> computes for them,
  the aggregates of the rows up to each split (\<open>low\<close>) and of the rest after each
  removal (\<open>high\<close>), and the states of the scan over the whole table. Doubles that
  are not integers are written as fractions; \<^verbatim>\<open>minRise\<close> is 1.0246950765959597.
\<close>

definition rows7 :: "number list list" where
  "rows7 = [[Fin 4], [Fin 6], [Fin 8], [Fin 9], [Fin 10], [Fin 12], [Fin 14]]"

definition g7 :: globals where
  "g7 = \<lparr>rows = rows7, numRows = 7, numCols = 1, lastCol = [Fin 4, Fin 6, Fin 8, Fin 9, Fin 10, Fin 12, Fin 14],
         minBinSize = 2, minRise = Fin (2307408182562973 / 2251799813685248)\<rparr>"

definition ulow1 :: aggr where
  "ulow1 = \<lparr>count_a = 1, mean = Fin 4, M2 = Fin 0, sd = Fin 0, max_a = Fin 4, min_a = Fin 4\<rparr>"

definition ulow2 :: aggr where
  "ulow2 = \<lparr>count_a = 2, mean = Fin 5, M2 = Fin 2, sd = Fin (6369051672525773 / 4503599627370496), max_a = Fin 6, min_a = Fin 4\<rparr>"

definition ulow3 :: aggr where
  "ulow3 = \<lparr>count_a = 3, mean = Fin 6, M2 = Fin 8, sd = Fin 2, max_a = Fin 8, min_a = Fin 4\<rparr>"

definition ulow4 :: aggr where
  "ulow4 = \<lparr>count_a = 4, mean = Fin (27 / 4), M2 = Fin (59 / 4), sd = Fin (4993041338151379 / 2251799813685248), max_a = Fin 9, min_a = Fin 4\<rparr>"

definition ulow5 :: aggr where
  "ulow5 = \<lparr>count_a = 5, mean = Fin (4165829655317709 / 562949953421312), M2 = Fin (6530219459687219 / 281474976710656), sd = Fin (5423052085799557 / 2251799813685248), max_a = Fin 10, min_a = Fin 4\<rparr>"

definition ulow6 :: aggr where
  "ulow6 = \<lparr>count_a = 6, mean = Fin (2298712309803691 / 281474976710656), M2 = Fin (2873390387254613 / 70368744177664), sd = Fin (3217526985413467 / 1125899906842624), max_a = Fin 12, min_a = Fin 4\<rparr>"

definition ulow7 :: aggr where
  "ulow7 = \<lparr>count_a = 7, mean = Fin (5066549580791809 / 562949953421312), M2 = Fin (2462906046218239 / 35184372088832), sd = Fin (7691360608543243 / 2251799813685248), max_a = Fin 14, min_a = Fin 4\<rparr>"

definition uhigh6 :: aggr where
  "uhigh6 = \<lparr>count_a = 6, mean = Fin (1383918635494059 / 140737488355328), M2 = Fin (1436695193627305 / 35184372088832), sd = Fin (6435053970826931 / 2251799813685248), max_a = Fin 14, min_a = Fin 4\<rparr>"

definition uhigh5 :: aggr where
  "uhigh5 = \<lparr>count_a = 5, mean = Fin (5967269506265909 / 562949953421312), M2 = Fin (6530219459687199 / 281474976710656), sd = Fin (1355763021449887 / 562949953421312), max_a = Fin 14, min_a = Fin 4\<rparr>"

definition uhigh4 :: aggr where
  "uhigh4 = \<lparr>count_a = 4, mean = Fin (3166593487994881 / 281474976710656), M2 = Fin (8303511812964301 / 562949953421312), sd = Fin (1248260334537841 / 562949953421312), max_a = Fin 14, min_a = Fin 4\<rparr>"

definition uhigh3 :: aggr where
  "uhigh3 = \<lparr>count_a = 3, mean = Fin (6755399441055747 / 562949953421312), M2 = Fin (70368744177663 / 8796093022208), sd = Fin (140737488355327 / 70368744177664), max_a = Fin 14, min_a = Fin 4\<rparr>"

definition uhigh2 :: aggr where
  "uhigh2 = \<lparr>count_a = 2, mean = Fin (1829587348619265 / 140737488355328), M2 = Fin (1125899906842543 / 562949953421312), sd = Fin (6369051672525543 / 4503599627370496), max_a = Fin 14, min_a = Fin 4\<rparr>"

definition uhigh1 :: aggr where
  "uhigh1 = \<lparr>count_a = 1, mean = Fin (985162418487297 / 70368744177664), M2 = Fin (- (97 / 562949953421312)), sd = Fin (6369051672525543 / 4503599627370496), max_a = Fin 14, min_a = Fin 4\<rparr>"

definition uscan0 :: scan where
  "uscan0 = \<lparr>belowSplitAggr = init_aggr, aboveSplitAggr = ulow7, best = Fin (7691360608543243 / 2251799813685248), cut = None\<rparr>"

definition uscan1 :: scan where
  "uscan1 = \<lparr>belowSplitAggr = ulow1, aboveSplitAggr = uhigh6, best = Fin (7691360608543243 / 2251799813685248), cut = None\<rparr>"

definition uscan2 :: scan where
  "uscan2 = \<lparr>belowSplitAggr = ulow2, aboveSplitAggr = uhigh5, best = Fin (5022575064156183 / 2251799813685248), cut = Some 1\<rparr>"

definition uscan3 :: scan where
  "uscan3 = \<lparr>belowSplitAggr = ulow3, aboveSplitAggr = uhigh4, best = Fin (5022372887023441 / 2251799813685248), cut = Some 2\<rparr>"

definition uscan4 :: scan where
  "uscan4 = \<lparr>belowSplitAggr = ulow4, aboveSplitAggr = uhigh3, best = Fin (1255593221755859 / 562949953421312), cut = Some 3\<rparr>"

definition uscan5 :: scan where
  "uscan5 = \<lparr>belowSplitAggr = ulow5, aboveSplitAggr = uhigh2, best = Fin (1255593221755859 / 562949953421312), cut = Some 3\<rparr>"

definition uscan6 :: scan where
  "uscan6 = \<lparr>belowSplitAggr = ulow6, aboveSplitAggr = uhigh1, best = Fin (1255593221755859 / 562949953421312), cut = Some 3\<rparr>"

definition uscan7 :: scan where
  "uscan7 = \<lparr>belowSplitAggr = ulow7, aboveSplitAggr = uhigh1, best = Fin (1255593221755859 / 562949953421312), cut = Some 3\<rparr>"

section \<open>Pipe3.ts: from cut values to band labels\<close>

text \<open>
  The class \<^verbatim>\<open>table\<close>. \<^verbatim>\<open>cols\<close> is the index of the last column (the cut value that
  \<^verbatim>\<open>argmin.ts\<close> appended), \<^verbatim>\<open>c\<close> the index of the column before it, \<^verbatim>\<open>rows\<close> the index
  of the last row and \<^verbatim>\<open>enough\<close> its square root. The fields \<^verbatim>\<open>rows\<close> and \<^verbatim>\<open>c\<close> carry
  the suffix \<open>_t\<close>. The cells are strings. \<open>world\<close> adds the two output streams the
  functions write to.
\<close>

record table =
  cols :: nat
  rows_t :: nat
  enough :: real
  c_t :: int
  attributes :: "string list"
  data :: "string list list"

record world =
  tab :: table
  stdout :: "string list"
  stderr :: "string list"

text \<open>
  Reading an array: an index that is not a natural number below the length yields
  \<^verbatim>\<open>undefined\<close> (\<open>None\<close>). \<open>js_str\<close> is what \<^verbatim>\<open>String\<close> and \<^verbatim>\<open>concat\<close> make of a
  cell. Writing beyond the end of a row leaves holes, which read and print as
  \<^verbatim>\<open>undefined\<close>.
\<close>

definition js_index :: "'a list \<Rightarrow> int \<Rightarrow> 'a option" where
  "js_index xs i = (if 0 \<le> i \<and> i < int (length xs) then Some (xs ! nat i) else None)"

definition js_index_num :: "'a list \<Rightarrow> real \<Rightarrow> 'a option" where
  "js_index_num xs x = (if x = real_of_int \<lfloor>x\<rfloor> then js_index xs \<lfloor>x\<rfloor> else None)"

definition js_str :: "string option \<Rightarrow> string" where
  "js_str v = (case v of None \<Rightarrow> ''undefined'' | Some s \<Rightarrow> s)"

definition js_set :: "string list \<Rightarrow> nat \<Rightarrow> string \<Rightarrow> string list" where
  "js_set row k v =
     (if k < length row then row[k := v]
      else row @ replicate (k - length row) ''undefined'' @ [v])"

text \<open>
  The constructor followed by \<^verbatim>\<open>dataSet(newData)\<close>, as \<^verbatim>\<open>readInput\<close> calls them.
  Reading \<^verbatim>\<open>data[0].length\<close> of an empty table throws. Each row comes from splitting
  a line and has at least one field.
\<close>

definition dataSet :: "string list \<Rightarrow> string list list \<Rightarrow> error + table" where
  "dataSet attrs newData =
     (case newData of
        [] \<Rightarrow> Inl TypeError
      | r0 # _ \<Rightarrow>
          Inr \<lparr>cols = length r0 - 1,
               rows_t = length newData - 1,
               enough = sqrt (real (length newData - 1)),
               c_t = int (length r0 - 1) - 1,
               attributes = attrs,
               data = newData\<rparr>)"

text \<open>
  \<^verbatim>\<open>band(input, low, high)\<close> writes the line \<^verbatim>\<open>band\<close> to the standard output and
  builds the label from the cells in column \<^verbatim>\<open>c\<close> of the rows \<^verbatim>\<open>low\<close> and \<^verbatim>\<open>high\<close>;
  reading a cell of a row that does not exist throws.
\<close>

definition band :: "world \<Rightarrow> int \<Rightarrow> int \<Rightarrow> error + string \<times> world" where
  "band w low high =
     (let w' = w\<lparr>stdout := stdout w @ [''band\<newline>'']\<rparr>;
          t = tab w
      in if low = 1 then
           (case js_index (data t) high of
              None \<Rightarrow> Inl TypeError
            | Some rh \<Rightarrow> Inr (''..'' @ js_str (js_index rh (c_t t)), w'))
         else
           (case js_index (data t) low of
              None \<Rightarrow> Inl TypeError
            | Some rl \<Rightarrow>
                (case js_index (data t) high of
                   None \<Rightarrow> Inl TypeError
                 | Some rh \<Rightarrow>
                     Inr (js_str (js_index rl (c_t t)) @ ''..'' @ js_str (js_index rh (c_t t)), w'))))"

text \<open>
  \<^verbatim>\<open>mark(input, low, high)\<close>: the label is computed once, then the loop stores it in
  column \<^verbatim>\<open>cols\<close> of the rows \<^verbatim>\<open>low\<close> to \<^verbatim>\<open>high\<close>.
\<close>

function mark_loop :: "table \<Rightarrow> string \<Rightarrow> int \<Rightarrow> int \<Rightarrow> error + table" where
  "mark_loop t b i high =
     (if i \<le> high then
        (case js_index (data t) i of
           None \<Rightarrow> Inl TypeError
         | Some r \<Rightarrow> mark_loop (t\<lparr>data := (data t)[nat i := js_set r (cols t) b]\<rparr>) b (i + 1) high)
      else Inr t)"
  by pat_completeness auto
termination
  by (relation "measure (\<lambda>(t, b, i, high). nat (high - i + 1))") auto

declare mark_loop.simps [simp del]

definition mark :: "world \<Rightarrow> int \<Rightarrow> int \<Rightarrow> error + world" where
  "mark w low high =
     (case band w low high of
        Inl e \<Rightarrow> Inl e
      | Inr (b, w') \<Rightarrow>
          (case mark_loop (tab w') b low high of
             Inl e \<Rightarrow> Inl e
           | Inr t' \<Rightarrow> Inr (w'\<lparr>tab := t'\<rparr>)))"

text \<open>
  \<^verbatim>\<open>Number\<close> is a parameter of the model: a function from the text of a cell to
  \<open>None\<close> for NaN or to the number it denotes (cells denoting an infinity are not
  modelled). \<^verbatim>\<open>Number(undefined)\<close> is NaN. \<open>marks\<close> is the pair of \<^verbatim>\<open>mark\<close> calls
  that ends \<^verbatim>\<open>cuts\<close>, and \<open>next_low\<close> decides whether \<^verbatim>\<open>cuts\<close> calls itself and with
  which lower bound: the cut value must be truthy (neither NaN nor 0) and at most
  \<^verbatim>\<open>rows\<close>.
\<close>

definition to_number :: "(string \<Rightarrow> real option) \<Rightarrow> string option \<Rightarrow> real option" where
  "to_number Number v = (case v of None \<Rightarrow> None | Some s \<Rightarrow> Number s)"

definition marks :: "world \<Rightarrow> int \<Rightarrow> int \<Rightarrow> error + world" where
  "marks w low high =
     (case mark w 1 (low - 1) of
        Inl e \<Rightarrow> Inl e
      | Inr w' \<Rightarrow> mark w' low high)"

definition next_low :: "(string \<Rightarrow> real option) \<Rightarrow> table \<Rightarrow> string list \<Rightarrow> real \<Rightarrow> int \<Rightarrow> real option" where
  "next_low Number t r low high =
     (if real_of_int high - low > enough t then
        (case to_number Number (js_index r (int (cols t))) of
           None \<Rightarrow> None
         | Some ct \<Rightarrow> if ct \<noteq> 0 \<and> ct \<le> real (rows_t t) then Some (ct + 1) else None)
      else None)"

text \<open>
  \<^verbatim>\<open>cuts(input, low, high, pre)\<close>. The first argument after \<open>Number\<close> bounds the
  depth of the recursion: \<open>None\<close> means that the bound was reached. \<^verbatim>\<open>low\<close> is a
  number, since it is computed from a cell; the first statement throws unless it is an
  index of a row.
\<close>

fun cuts :: "(string \<Rightarrow> real option) \<Rightarrow> nat \<Rightarrow> world \<Rightarrow> real \<Rightarrow> int \<Rightarrow> string \<Rightarrow> (error + world) option" where
  "cuts Number 0 w low high pre = None"
| "cuts Number (Suc fuel) w low high pre =
     (case js_index_num (data (tab w)) low of
        None \<Rightarrow> Some (Inl TypeError)
      | Some r \<Rightarrow>
          (let tbPrint = pre @ js_str (js_index r (c_t (tab w)));
               w' = w\<lparr>stderr := stderr w @ [tbPrint @ ''\<newline>'']\<rparr>
           in case next_low Number (tab w) r low high of
                Some low' \<Rightarrow> cuts Number fuel w' low' high (pre @ ''|..'')
              | None \<Rightarrow> Some (marks w' \<lfloor>low\<rfloor> high)))"







text \<open>
  For concrete tables \<^verbatim>\<open>Number\<close> is instantiated by \<open>Number_dec\<close>, which reads the
  empty string as 0 and a string of decimal digits, with or without a leading minus
  sign, as that integer, and the text \<^verbatim>\<open>NaN\<close> as NaN; on these strings it agrees with
  \<^verbatim>\<open>Number\<close>. On every other string it yields NaN, which \<^verbatim>\<open>Number\<close> does not
  always do (blanks around a number, a plus sign, fractions, exponents and hexadecimal
  digits are numbers to it); the tables below hold no such cell.
\<close>

definition digit_of :: "char \<Rightarrow> nat option" where
  "digit_of ch =
     (let code = (of_char ch :: nat)
      in if 48 \<le> code \<and> code \<le> 57 then Some (code - 48) else None)"

fun digits_val :: "nat \<Rightarrow> string \<Rightarrow> nat option" where
  "digits_val acc [] = Some acc"
| "digits_val acc (c # cs) =
     (case digit_of c of None \<Rightarrow> None | Some d \<Rightarrow> digits_val (10 * acc + d) cs)"

definition Number_dec :: "string \<Rightarrow> real option" where
  "Number_dec s =
     (case s of
        [] \<Rightarrow> Some 0
      | c # cs \<Rightarrow>
          if c = CHR ''-'' then (if cs = [] then None else map_option (\<lambda>n. - real n) (digits_val 0 cs))
          else map_option real (digits_val 0 s))"

definition tbl5 :: table where
  "tbl5 = \<lparr>cols = 1, rows_t = 4, enough = 2, c_t = 0, attributes = [''dom'', ''cut''],
           data = [[''10'', ''2''], [''20'', ''2''], [''30'', ''5''], [''40'', ''5''], [''50'', ''5'']]\<rparr>"

definition world5 :: world where
  "world5 = \<lparr>tab = tbl5, stdout = [], stderr = []\<rparr>"



definition tbl5_marked :: table where
  "tbl5_marked = tbl5\<lparr>data := [[''10'', ''2''], [''20'', ''..30''], [''30'', ''..30''],
                                 [''40'', ''40..50''], [''50'', ''40..50'']]\<rparr>"



section \<open>sortlastcol.ts: sorting the rows by their last column\<close>

text \<open>
  A row is the list of the numbers of a line; the rows come from splitting lines, so
  none is empty, and \<open>key\<close> is the value in the last column, which every comparison
  of the source reads. Cells that are not numbers (NaN) are outside the model.
\<close>

type_synonym row = "real list"

definition key :: "row \<Rightarrow> real" where
  "key r = last r"

text \<open>
  \<^verbatim>\<open>merge\<close> writes the rows of \<^verbatim>\<open>left\<close> and \<^verbatim>\<open>right\<close> into \<^verbatim>\<open>vals\<close> from index 0 on:
  while both have rows left, the row of \<^verbatim>\<open>left\<close> unless its key is greater; then what
  remains of \<^verbatim>\<open>left\<close>, then what remains of \<^verbatim>\<open>right\<close>. The model returns the new
  contents of \<^verbatim>\<open>vals\<close>. \<^verbatim>\<open>mergeSort(vals, n)\<close> is always called with \<open>n\<close> the length
  of \<^verbatim>\<open>vals\<close>.
\<close>

fun merge :: "row list \<Rightarrow> row list \<Rightarrow> row list" where
  "merge (l # left) (r # right) =
     (if key l \<le> key r then l # merge left (r # right) else r # merge (l # left) right)"
| "merge left [] = left"
| "merge [] right = right"

function mergeSort :: "row list \<Rightarrow> row list" where
  "mergeSort vals =
     (if length vals < 2 then vals
      else merge (mergeSort (take (length vals div 2) vals))
                 (mergeSort (drop (length vals div 2) vals)))"
  by pat_completeness auto
termination
  by (relation "measure length") auto

declare mergeSort.simps [simp del]

text \<open>
  \<^verbatim>\<open>bubbleSort\<close>: the inner loop over \<^verbatim>\<open>j\<close> swaps the rows \<^verbatim>\<open>j\<close> and \<^verbatim>\<open>j + 1\<close> when the
  key of the first is greater; the outer loop over \<^verbatim>\<open>i\<close> runs it \<open>n - 1\<close> times.
\<close>

function bubble_inner :: "row list \<Rightarrow> nat \<Rightarrow> nat \<Rightarrow> nat \<Rightarrow> row list" where
  "bubble_inner vals n i j =
     (if j + i + 1 < n then
        bubble_inner
          (if key (vals ! j) > key (vals ! (j + 1))
           then vals[j := vals ! (j + 1), j + 1 := vals ! j] else vals)
          n i (j + 1)
      else vals)"
  by pat_completeness auto
termination
  by (relation "measure (\<lambda>(vals, n, i, j). n - j)") auto

declare bubble_inner.simps [simp del]

function bubble_outer :: "row list \<Rightarrow> nat \<Rightarrow> nat \<Rightarrow> row list" where
  "bubble_outer vals n i =
     (if i + 1 < n then bubble_outer (bubble_inner vals n i 0) n (i + 1) else vals)"
  by pat_completeness auto
termination
  by (relation "measure (\<lambda>(vals, n, i). n - i)") auto

declare bubble_outer.simps [simp del]

definition bubbleSort :: "row list \<Rightarrow> row list" where
  "bubbleSort vals = bubble_outer vals (length vals) 0"

text \<open>
  \<^verbatim>\<open>selectionSort\<close>: the inner loop finds the index \<^verbatim>\<open>min\<close> of the first row with the
  least key from \<^verbatim>\<open>i\<close> on, and the rows \<^verbatim>\<open>min\<close> and \<^verbatim>\<open>i\<close> are swapped.
\<close>

function sel_min :: "row list \<Rightarrow> nat \<Rightarrow> nat \<Rightarrow> nat \<Rightarrow> nat" where
  "sel_min vals n mn j =
     (if j < n then sel_min vals n (if key (vals ! j) < key (vals ! mn) then j else mn) (j + 1)
      else mn)"
  by pat_completeness auto
termination
  by (relation "measure (\<lambda>(vals, n, mn, j). n - j)") auto

declare sel_min.simps [simp del]

function sel_outer :: "row list \<Rightarrow> nat \<Rightarrow> nat \<Rightarrow> row list" where
  "sel_outer vals n i =
     (if i + 1 < n then
        (let mn = sel_min vals n i (i + 1)
         in sel_outer (vals[mn := vals ! i, i := vals ! mn]) n (i + 1))
      else vals)"
  by pat_completeness auto
termination
  by (relation "measure (\<lambda>(vals, n, i). n - i)") auto

declare sel_outer.simps [simp del]

definition selectionSort :: "row list \<Rightarrow> row list" where
  "selectionSort vals = sel_outer vals (length vals) 0"

text \<open>
  \<^verbatim>\<open>bogoSort\<close>: while \<^verbatim>\<open>isSorted\<close> fails, every row \<^verbatim>\<open>i\<close> is swapped with the row
  \<^verbatim>\<open>Math.floor(Math.random() * i)\<close>. The random numbers are a parameter: \<open>rnd k\<close> is
  the value of the \<open>k\<close>-th call of \<^verbatim>\<open>Math.random\<close>, and \<open>unit_range\<close> says that every
  value lies in \<open>[0, 1)\<close>. The loop may run forever: \<open>None\<close> is then its value.
\<close>

fun isSorted :: "row list \<Rightarrow> bool" where
  "isSorted (x # y # rest) = (if key y < key x then False else isSorted (y # rest))"
| "isSorted vals = True"

function shuffle :: "(nat \<Rightarrow> real) \<Rightarrow> nat \<Rightarrow> row list \<Rightarrow> nat \<Rightarrow> nat \<Rightarrow> row list" where
  "shuffle rnd k vals n i =
     (if i < n then
        (let j = nat \<lfloor>rnd (k + i) * real i\<rfloor>
         in shuffle rnd k (vals[i := vals ! j, j := vals ! i]) n (i + 1))
      else vals)"
  by pat_completeness auto
termination
  by (relation "measure (\<lambda>(rnd, k, vals, n, i). n - i)") auto

declare shuffle.simps [simp del]

partial_function (option) bogo_loop :: "(nat \<Rightarrow> real) \<Rightarrow> nat \<Rightarrow> row list \<Rightarrow> row list option" where
  "bogo_loop rnd k vals =
     (if isSorted vals then Some vals
      else bogo_loop rnd (k + length vals) (shuffle rnd k vals (length vals) 0))"

definition bogoSort :: "(nat \<Rightarrow> real) \<Rightarrow> row list \<Rightarrow> row list option" where
  "bogoSort rnd vals = bogo_loop rnd 0 vals"

definition unit_range :: "(nat \<Rightarrow> real) \<Rightarrow> bool" where
  "unit_range rnd \<longleftrightarrow> (\<forall>k. 0 \<le> rnd k \<and> rnd k < 1)"





subsection \<open>Sortedness and stability\<close>

text \<open>
  The rows are sorted when their keys ascend. An output is stable for an input when,
  for every key, the rows with that key come in the same order in both.
\<close>

definition sorted_asc :: "row list \<Rightarrow> bool" where
  "sorted_asc vals = sorted (map key vals)"

definition stable :: "row list \<Rightarrow> row list \<Rightarrow> bool" where
  "stable vals out = (\<forall>k. filter (\<lambda>r. key r = k) out = filter (\<lambda>r. key r = k) vals)"

definition bubble_step :: "row list \<Rightarrow> nat \<Rightarrow> row list" where
  "bubble_step vals j =
     (if key (vals ! j) > key (vals ! (j + 1))
      then vals[j := vals ! (j + 1), j + 1 := vals ! j] else vals)"

definition sorted_from :: "row list \<Rightarrow> nat \<Rightarrow> bool" where
  "sorted_from vals b \<longleftrightarrow>
     (\<forall>p q. b \<le> p \<and> p \<le> q \<and> q < length vals \<longrightarrow> key (vals ! p) \<le> key (vals ! q)) \<and>
     (\<forall>p q. p < b \<and> b \<le> q \<and> q < length vals \<longrightarrow> key (vals ! p) \<le> key (vals ! q))"

definition sorted_upto :: "row list \<Rightarrow> nat \<Rightarrow> bool" where
  "sorted_upto vals i \<longleftrightarrow>
     (\<forall>p q. p \<le> q \<and> q < i \<and> q < length vals \<longrightarrow> key (vals ! p) \<le> key (vals ! q)) \<and>
     (\<forall>p q. p < i \<and> i \<le> q \<and> q < length vals \<longrightarrow> key (vals ! p) \<le> key (vals ! q))"

subsection \<open>Inputs used below\<close>

definition rnd0 :: "nat \<Rightarrow> real" where
  "rnd0 k = 0"

definition vals_ties :: "row list" where
  "vals_ties = [[1, 2], [2, 2], [3, 1]]"





definition vals21 :: "row list" where
  "vals21 = [[2], [1]]"

definition rnd_half :: "nat \<Rightarrow> real" where
  "rnd_half k = 1 / 2"

definition vals_212 :: "row list" where
  "vals_212 = [[1, 2], [2, 1], [3, 2]]"

section \<open>Rounding to a double\<close>

text \<open>
  Two ways to evaluate \<open>round_double\<close>: a real of at most 53 significant bits is its
  own rounding, and any other real in the binade with unit \<^verbatim>\<open>2^k\<close> rounds to the
  multiple of the unit nearest to it.
\<close>

lemma nearest_even_int [simp]: "nearest_even (of_int i) = i"
  by (simp add: nearest_even_def)

lemma nearest_even_near:
  assumes "\<bar>z - of_int m\<bar> < 1 / 2"
  shows "nearest_even z = m"
proof (cases "of_int m \<le> z")
  case True
  with assms have f: "\<lfloor>z\<rfloor> = m" by (intro floor_unique) auto
  show ?thesis unfolding nearest_even_def Let_def f using assms True by auto
next
  case False
  with assms have f: "\<lfloor>z\<rfloor> = m - 1" by (intro floor_unique) auto
  show ?thesis unfolding nearest_even_def Let_def f using assms False by auto
qed

lemma floor_log2:
  assumes "2 powi e \<le> x" and "x < 2 powi (e + 1)"
  shows "\<lfloor>log 2 x\<rfloor> = e"
proof -
  have "(0::real) < 2 powi e" by simp
  then have pos: "0 < x" using assms(1) by linarith
  have p: "\<And>k::int. (2::real) powr (of_int k) = 2 powi k"
    by (simp add: powr_real_of_int')
  have "2 powr (of_int e) \<le> x \<and> x < 2 powr (of_int (e + 1))"
    using assms unfolding p by simp
  then show ?thesis
    using pos by (subst floor_log_eq_powr_iff) (simp_all add: add.commute)
qed

lemma ulp_exponent_normal:
  assumes "2 powi (k + 52) \<le> \<bar>x\<bar>" and "\<bar>x\<bar> < 2 powi (k + 53)" and "- 1074 \<le> k"
  shows "ulp_exponent x = k"
proof -
  have "\<lfloor>log 2 \<bar>x\<bar>\<rfloor> = k + 52"
    using assms(1,2) by (intro floor_log2) (simp_all add: add.assoc)
  then show ?thesis using assms(3) by (simp add: ulp_exponent_def)
qed


lemma round_double_eval:
  assumes "2 powi (k + 52) \<le> \<bar>x\<bar>" and "\<bar>x\<bar> < 2 powi (k + 53)" and "- 1074 \<le> k" and "k \<le> 970"
    and "nearest_even (x / 2 powi k) = m" and "\<bar>m\<bar> \<le> 2 ^ 53"
    and "y = of_int m * 2 powi k"
  shows "round_double x = Fin y"
proof -
  have q: "ulp_exponent x = k" by (rule ulp_exponent_normal [OF assms(1-3)])
  have "(0::real) < 2 powi (k + 52)" by simp
  then have x0: "x \<noteq> 0" using assms(1) by linarith
  have "(2::real) powi k \<le> 2 powi 970"
    using assms(4) by (intro power_int_increasing) simp_all
  moreover have "\<bar>real_of_int m\<bar> \<le> 2 ^ 53"
    using assms(6) by (metis of_int_abs of_int_le_iff of_int_numeral of_int_power)
  ultimately have "\<bar>real_of_int m\<bar> * 2 powi k \<le> 2 ^ 53 * 2 powi 970"
    by (intro mult_mono) simp_all
  also have "\<dots> < 2 ^ 1024" by simp
  finally have "\<bar>y\<bar> < 2 ^ 1024" unfolding assms(7) by (simp add: abs_mult)
  then show ?thesis
    unfolding round_double_def Let_def q assms(5) using x0 assms(7) by simp
qed

lemma round_double_exact:
  assumes "x = of_int m * 2 powi k" and "\<bar>m\<bar> < 2 ^ 53" and "- 1074 \<le> k" and "k \<le> 970"
  shows "round_double x = Fin x"
proof (cases "m = 0")
  case True
  then show ?thesis using assms(1) by (simp add: round_double_def)
next
  case False
  then have x0: "x \<noteq> 0" using assms(1) by simp
  define e where "e = \<lfloor>log 2 \<bar>x\<bar>\<rfloor>"
  define q where "q = ulp_exponent x"
  have xpos: "0 < \<bar>x\<bar>" using x0 by simp
  have p: "\<And>j::int. (2::real) powr (of_int j) = 2 powi j"
    by (simp add: powr_real_of_int')
  have "2 powr (of_int e) \<le> \<bar>x\<bar>"
    using xpos unfolding e_def by (metis floor_log_eq_powr_iff one_less_numeral_iff semiring_norm(76))
  then have lo: "2 powi e \<le> \<bar>x\<bar>" unfolding p .
  have "\<bar>real_of_int m\<bar> < 2 ^ 53"
    using assms(2) by (metis of_int_abs of_int_less_iff of_int_numeral of_int_power)
  then have "\<bar>x\<bar> < 2 ^ 53 * 2 powi k"
    unfolding assms(1) by (simp add: abs_mult)
  also have "\<dots> = 2 powi (k + 53)" by (simp add: power_int_add)
  finally have a: "2 powi e < (2::real) powi (k + 53)" using lo by linarith
  have "e < k + 53"
  proof (rule ccontr)
    assume "\<not> e < k + 53"
    then have "(2::real) powi (k + 53) \<le> 2 powi e"
      by (intro power_int_increasing) simp_all
    with a show False by simp
  qed
  then have qk: "q \<le> k" using assms(3) by (simp add: q_def ulp_exponent_def e_def)
  define j where "j = nat (k - q)"
  have kq: "k = q + int j" using qk by (simp add: j_def)
  have "x / 2 powi q = of_int m * 2 powi (int j)"
    unfolding assms(1) kq by (simp add: power_int_add)
  also have "\<dots> = of_int (m * 2 ^ j)" by simp
  finally have ne: "nearest_even (x / 2 powi q) = m * 2 ^ j" by (simp only: nearest_even_int)
  have xq: "of_int (m * 2 ^ j) * 2 powi q = x"
    unfolding assms(1) kq by (simp add: power_int_add)
  have "(2::real) powi k \<le> 2 powi 970"
    using assms(4) by (intro power_int_increasing) simp_all
  with \<open>\<bar>real_of_int m\<bar> < 2 ^ 53\<close> have "\<bar>real_of_int m\<bar> * 2 powi k \<le> 2 ^ 53 * 2 powi 970"
    by (intro mult_mono) simp_all
  also have "\<dots> < 2 ^ 1024" by simp
  finally have "\<bar>x\<bar> < 2 ^ 1024" unfolding assms(1) by (simp add: abs_mult)
  then show ?thesis
    unfolding round_double_def Let_def q_def [symmetric] ne xq using x0 by simp
qed


lemma of_int_abs_bound: "\<bar>m\<bar> < 2 ^ 53 \<Longrightarrow> \<bar>real_of_int m\<bar> < 2 ^ 53"
  by (metis of_int_abs of_int_less_iff of_int_numeral of_int_power)

lemma round_double_int: "\<bar>n\<bar> < 2 ^ 53 \<Longrightarrow> round_double (of_int n) = Fin (of_int n)"
  by (rule round_double_exact [where m = n and k = 0]) simp_all

lemma round_double_0 [simp]: "round_double 0 = Fin 0"
  by (simp add: round_double_def)

lemma round_double_1 [simp]: "round_double 1 = Fin 1"
  using round_double_int [of 1] by simp

lemma round_double_neg_1 [simp]: "round_double (- 1) = Fin (- 1)"
  using round_double_int [of "- 1"] by simp

lemma round_double_numeral [simp]:
  "(numeral w :: int) < 2 ^ 53 \<Longrightarrow> round_double (numeral w) = Fin (numeral w)"
  using round_double_int [of "numeral w"] by simp

lemma round_double_neg_numeral [simp]:
  "(numeral w :: int) < 2 ^ 53 \<Longrightarrow> round_double (- numeral w) = Fin (- numeral w)"
  using round_double_int [of "- numeral w"] by simp

lemma round_double_half: "\<bar>n\<bar> < 2 ^ 53 \<Longrightarrow> round_double (of_int n / 2) = Fin (of_int n / 2)"
  by (rule round_double_exact [where m = n and k = "- 1"]) simp_all

lemma round_double_quarter: "\<bar>n\<bar> < 2 ^ 53 \<Longrightarrow> round_double (of_int n / 4) = Fin (of_int n / 4)"
  by (rule round_double_exact [where m = n and k = "- 2"]) simp_all

lemma round_double_numeral_half [simp]:
  "(numeral w :: int) < 2 ^ 53 \<Longrightarrow> round_double (numeral w / 2) = Fin (numeral w / 2)"
  using round_double_half [of "numeral w"] by simp

lemma round_double_neg_numeral_half [simp]:
  "(numeral w :: int) < 2 ^ 53 \<Longrightarrow> round_double (- (numeral w / 2)) = Fin (- (numeral w / 2))"
  using round_double_half [of "- numeral w"] by simp

lemma round_double_numeral_quarter [simp]:
  "(numeral w :: int) < 2 ^ 53 \<Longrightarrow> round_double (numeral w / 4) = Fin (numeral w / 4)"
  using round_double_quarter [of "numeral w"] by simp

lemma round_double_neg_numeral_quarter [simp]:
  "(numeral w :: int) < 2 ^ 53 \<Longrightarrow> round_double (- (numeral w / 4)) = Fin (- (numeral w / 4))"
  using round_double_quarter [of "- numeral w"] by simp


lemma round_double_one_half [simp]: "round_double (1 / 2) = Fin (1 / 2)"
  using round_double_half [of 1] by simp

lemma round_double_neg_one_half [simp]: "round_double (- (1 / 2)) = Fin (- (1 / 2))"
  using round_double_half [of "- 1"] by simp

lemma fsqrt_eval:
  assumes "(2 powi (k + 52))\<^sup>2 \<le> x" and "x < (2 powi (k + 53))\<^sup>2" and "- 1074 \<le> k" and "k \<le> 970"
    and "1 \<le> m" and "m \<le> 2 ^ 53"
    and "((of_int m - 1 / 2) * 2 powi k)\<^sup>2 < x" and "x < ((of_int m + 1 / 2) * 2 powi k)\<^sup>2"
    and "y = of_int m * 2 powi k"
  shows "fsqrt (Fin x) = Fin y"
proof -
  have p: "(0::real) < 2 powi k" by simp
  have x0: "0 \<le> x" using assms(1) by (smt (verit) zero_le_power2)
  have lo: "2 powi (k + 52) \<le> sqrt x"
    using assms(1) by (intro real_le_rsqrt)
  have hi: "sqrt x < 2 powi (k + 53)"
    using assms(2) by (intro real_less_lsqrt) simp_all
  have m1: "(1::real) \<le> of_int m" using assms(5) by simp
  have a: "(of_int m - 1 / 2) * 2 powi k < sqrt x"
    using assms(7) by (intro real_less_rsqrt)
  have b: "sqrt x < (of_int m + 1 / 2) * 2 powi k"
    using assms(8) m1 by (intro real_less_lsqrt) simp_all
  have "of_int m - 1 / 2 < sqrt x / 2 powi k" "sqrt x / 2 powi k < of_int m + 1 / 2"
    using a b p by (simp_all add: field_simps)
  then have "\<bar>sqrt x / 2 powi k - of_int m\<bar> < 1 / 2" by linarith
  then have ne: "nearest_even (sqrt x / 2 powi k) = m" by (rule nearest_even_near)
  have s0: "\<bar>sqrt x\<bar> = sqrt x" using x0 by simp
  have am: "\<bar>m\<bar> \<le> 2 ^ 53" using assms(5,6) by simp
  have "round_double (sqrt x) = Fin y"
    by (rule round_double_eval [where k = k and m = m]) (simp_all only: s0 lo hi assms(3,4,9) ne am)
  then show ?thesis using x0 by simp
qed

lemma fsqrt_square:
  assumes "0 \<le> y" and "x = y\<^sup>2" and "round_double y = Fin y"
  shows "fsqrt (Fin x) = Fin y"
  using assms by simp

subsection \<open>The order of the numbers\<close>

text \<open>\<^verbatim>\<open><\<close> is a strict order in which NaN is comparable with nothing.\<close>

lemma fless_irrefl [simp]: "\<not> fless a a"
  by (cases a) simp_all



lemma fless_not_nan: "fless a b \<Longrightarrow> a \<noteq> NaN \<and> b \<noteq> NaN"
  by (cases a; cases b) simp_all

lemma fless_total: "a \<noteq> NaN \<Longrightarrow> b \<noteq> NaN \<Longrightarrow> fless a b \<or> a = b \<or> fless b a"
  by (cases a; cases b) auto




subsection \<open>The constants of the source\<close>

lemma epsilon_eq: "epsilon = Fin (7307508186654515 / 730750818665451459101842416358141509827966271488)"
  unfolding epsilon_def by (rule round_double_eval [where k = "- 159" and m = "7307508186654515"]) (simp_all add: nearest_even_def)

lemma ten32_eq: "ten32 = Fin 100000000000000005366162204393472"
  unfolding ten32_def by (rule round_double_eval [where k = "54" and m = "5551115123125783"]) (simp_all add: nearest_even_def)

lemma COHEN_eq: "COHEN = Fin (5404319552844595 / 18014398509481984)"
  unfolding COHEN_def by (rule round_double_eval [where k = "- 54" and m = "5404319552844595"]) (simp_all add: nearest_even_def)

lemma round_c0001: "round_double (1 / 10000) = Fin (7378697629483821 / 73786976294838206464)"
  by (rule round_double_eval [where k = "- 66" and m = "7378697629483821"]) (simp_all add: nearest_even_def)

lemma round_c105: "round_double (21 / 20) = Fin (4728779608739021 / 4503599627370496)"
  by (rule round_double_eval [where k = "- 52" and m = "4728779608739021"]) (simp_all add: nearest_even_def)


subsection \<open>The divisor of the standard deviation\<close>

text \<open>
  \<^verbatim>\<open>10**-32\<close> is far below half a unit in the last place of any positive count, so
  \<^verbatim>\<open>count - 1 + 10**-32\<close> is \<^verbatim>\<open>count - 1\<close> whenever the source evaluates it.
\<close>

lemma epsilon_small: "0 < the_real epsilon" "the_real epsilon * 2 ^ 52 < 1 / 2"
  by (simp_all add: epsilon_eq)

lemma fadd_epsilon:
  assumes "1 \<le> n" and "n < 2 ^ 52"
  shows "fadd (Fin (of_int n)) epsilon = Fin (of_int n)"
proof -
  define e where "e = the_real epsilon"
  have eps: "epsilon = Fin e" by (simp add: e_def epsilon_eq)
  have e0: "0 < e" and e1: "e * 2 ^ 52 < 1 / 2" using epsilon_small by (simp_all add: e_def)
  define b where "b = \<lfloor>log 2 (real_of_int n)\<rfloor>"
  have n0: "0 < real_of_int n" using assms(1) by simp
  have p: "\<And>j::int. (2::real) powr (of_int j) = 2 powi j"
    by (simp add: powr_real_of_int')
  have "2 powr (of_int b) \<le> real_of_int n \<and> real_of_int n < 2 powr (of_int (b + 1))"
    using n0 floor_log_eq_powr_iff [of "real_of_int n" 2 b] by (simp add: b_def add.commute)
  then have lo: "2 powi b \<le> real_of_int n" and hi: "real_of_int n < 2 powi (b + 1)"
    unfolding p by simp_all
  have b0: "0 \<le> b"
    unfolding b_def using assms(1) by (simp add: zero_le_log_cancel_iff)
  have b51: "b \<le> 51"
  proof (rule ccontr)
    assume "\<not> b \<le> 51"
    then have "(2::real) powi 52 \<le> 2 powi b" by (intro power_int_increasing) simp_all
    with lo have "2 ^ 52 \<le> real_of_int n" by simp
    then have "(2::int) ^ 52 \<le> n" by (metis of_int_le_iff of_int_numeral of_int_power)
    with assms(2) show False by simp
  qed
  define j where "j = nat (52 - b)"
  define c where "c = nat (b + 1)"
  have jb: "int j = 52 - b" using b51 by (simp add: j_def)
  have cb: "int c = b + 1" using b0 by (simp add: c_def)
  have "real_of_int n < 2 ^ c" using hi cb by (metis power_int_of_nat)
  then have "n < 2 ^ c" by (metis of_int_less_iff of_int_numeral of_int_power)
  then have "n + 1 \<le> 2 ^ c" by simp
  then have "real_of_int (n + 1) \<le> 2 ^ c" by (metis of_int_le_iff of_int_numeral of_int_power)
  then have n1: "real_of_int n + 1 \<le> 2 powi (b + 1)" using cb by (metis of_int_add of_int_1 power_int_of_nat)
  let ?x = "real_of_int n + e"
  let ?k = "b - 52"
  have xpos: "\<bar>?x\<bar> = ?x" using n0 e0 by simp
  have e_lt1: "e < 1"
  proof -
    have "e * 1 \<le> e * 2 ^ 52" using e0 by (intro mult_left_mono) simp_all
    with e1 show ?thesis by simp
  qed
  have c1: "2 powi (?k + 52) \<le> \<bar>?x\<bar>" unfolding xpos using lo e0 by simp
  have "?x < 2 powi (b + 1)" using n1 e_lt1 by linarith
  then have c2: "\<bar>?x\<bar> < 2 powi (?k + 53)" unfolding xpos by (simp add: add.commute)
  have kj: "?k = - int j" using jb by simp
  have pk: "(2::real) powi ?k = 1 / 2 ^ j" unfolding kj by (simp add: power_int_minus field_simps)
  have div: "?x / 2 powi ?k = real_of_int (n * 2 ^ j) + e * 2 ^ j"
    unfolding pk by (simp add: algebra_simps)
  have "(2::real) ^ j \<le> 2 ^ 52" using jb b0 by (intro power_increasing) simp_all
  then have "e * 2 ^ j \<le> e * 2 ^ 52" using e0 by (intro mult_left_mono) simp_all
  then have ej: "e * 2 ^ j < 1 / 2" using e1 by linarith
  have "0 \<le> e * 2 ^ j" using e0 by simp
  then have "\<bar>?x / 2 powi ?k - real_of_int (n * 2 ^ j)\<bar> < 1 / 2"
    unfolding div using ej by (simp only: add_diff_cancel_left' abs_of_nonneg)
  then have ne: "nearest_even (?x / 2 powi ?k) = n * 2 ^ j" by (rule nearest_even_near)
  have "real_of_int n * 2 ^ j < 2 powi (b + 1) * 2 ^ j"
    using hi by (intro mult_strict_right_mono) simp_all
  also have "\<dots> = 2 powi (b + 1) * 2 powi (int j)" by simp
  also have "\<dots> = 2 powi 53" unfolding jb by (simp flip: power_int_add)
  finally have "real_of_int (n * 2 ^ j) < 2 ^ 53" by simp
  then have "n * 2 ^ j < 2 ^ 53" by (metis of_int_less_iff of_int_numeral of_int_power)
  moreover have "0 \<le> n * 2 ^ j" using assms(1) by simp
  ultimately have am: "\<bar>n * 2 ^ j\<bar> \<le> 2 ^ 53" by simp
  have y: "real_of_int n = real_of_int (n * 2 ^ j) * 2 powi ?k"
    unfolding pk by simp
  have "round_double ?x = Fin (real_of_int n)"
    using c1 c2 _ _ ne am y by (rule round_double_eval) (use b0 b51 in simp_all)
  then show ?thesis by (simp add: eps)
qed


lemma fadd_epsilon_1 [simp]: "fadd (Fin 1) epsilon = Fin 1"
  using fadd_epsilon [of 1] by simp

lemma fadd_epsilon_numeral [simp]:
  "(numeral w :: int) < 2 ^ 52 \<Longrightarrow> fadd (Fin (numeral w)) epsilon = Fin (numeral w)"
  using fadd_epsilon [of "numeral w"] by simp

declare fsqrt.simps(1) [simp del]

lemma fsqrt_0 [simp]: "fsqrt (Fin 0) = Fin 0"
  by (simp add: fsqrt.simps)

lemma fsqrt_neg [simp]: "x < 0 \<Longrightarrow> fsqrt (Fin x) = NaN"
  by (simp add: fsqrt.simps)

section \<open>Properties of the accumulator\<close>

subsection \<open>The cached standard deviation\<close>

lemma sd_numInc:
  "sd (numInc a v) = (if 2 \<le> count_a (numInc a v) then sd_formula (numInc a v) else sd a)"
  by (simp add: numInc_def sd_formula_def Let_def)

lemma sd_numDec:
  "sd (numDec a v) = (if 2 \<le> count_a (numDec a v) then sd_formula (numDec a v) else sd a)"
  by (simp add: numDec_def sd_formula_def Let_def)

lemma sd_apply_op:
  "sd (apply_op a x) = (if 2 \<le> count_a (apply_op a x) then sd_formula (apply_op a x) else sd a)"
  by (cases x) (simp_all only: apply_op.simps sd_numInc sd_numDec)

lemma sd_run: "sd (run a ops) = sd_last (sd a) (states a ops)"
proof (induction ops arbitrary: a)
  case Nil
  then show ?case by simp
next
  case (Cons x xs)
  have "sd (run a (x # xs)) = sd_last (sd (apply_op a x)) (states (apply_op a x) xs)"
    using Cons.IH [of "apply_op a x"] by simp
  also have "\<dots> = sd_last (sd a) (states a (x # xs))"
    by (simp add: sd_apply_op)
  finally show ?case .
qed

lemma below2_run: "below2 a ops \<Longrightarrow> count_a (run a ops) < 2 \<and> sd (run a ops) = sd a"
proof (induction ops arbitrary: a)
  case Nil
  then show ?case by simp
next
  case (Cons x xs)
  from Cons.prems have b: "below2 (apply_op a x) xs" by simp
  then have c: "count_a (apply_op a x) < 2" by (cases xs) simp_all
  then have "sd (apply_op a x) = sd a" by (simp add: sd_apply_op)
  then show ?case using Cons.IH [OF b] by simp
qed

subsection \<open>Welford's update without rounding\<close>
















subsection \<open>Four sequences of calls\<close>

text \<open>
  The aggregate \<^verbatim>\<open>getStdDev\<close> starts from, with its two bounds evaluated, and the
  aggregates the four sequences of calls end with. The lemmas before each are the
  roundings and roots on the way that the general rules do not cover.
\<close>

lemma round_neg_ten32:
  "round_double (- 100000000000000005366162204393472) = Fin (- 100000000000000005366162204393472)"
  by (rule round_double_exact [where m = "- 5551115123125783" and k = "54"]) simp_all

lemma init_aggr_eq:
  "init_aggr = \<lparr>count_a = 0, mean = Fin 0, M2 = Fin 0, sd = Fin 0,
                 max_a = Fin (- 100000000000000005366162204393472),
                 min_a = Fin 100000000000000005366162204393472\<rparr>"
  by (simp add: init_aggr_def ten32_eq round_neg_ten32)

lemma root_1: "fsqrt (Fin (1 / 2)) = Fin (6369051672525773 / 9007199254740992)"
  by (rule fsqrt_eval [where k = "- 53" and m = "6369051672525773"]) (simp_all add: power2_eq_square)

lemma root_2: "fsqrt (Fin 1) = Fin 1"
  by (rule fsqrt_square) simp_all


lemma rounding_1: "round_double 9007199254740992 = Fin 9007199254740992"
  by (rule round_double_exact [where m = "4503599627370496" and k = "1"]) simp_all

lemma rounding_2: "round_double 12009598916842838 = Fin 12009598916842838"
  by (rule round_double_exact [where m = "6004799458421419" and k = "1"]) simp_all

lemma rounding_3: "round_double (24019197833685675 / 2) = Fin 12009598916842838"
  by (rule round_double_eval [where k = "1" and m = "6004799458421419"]) (simp_all add: nearest_even_def)

lemma root_3: "fsqrt (Fin 9007199254740992) = Fin (6369051672525773 / 67108864)"
  by (rule fsqrt_eval [where k = "- 26" and m = "6369051672525773"]) (simp_all add: power2_eq_square)

lemma root_4: "fsqrt (Fin 6004799458421419) = Fin (650038611874581 / 8388608)"
  by (rule fsqrt_eval [where k = "- 26" and m = "5200308894996648"]) (simp_all add: power2_eq_square)


lemma root_5: "fsqrt (Fin 50) = Fin (124395540479019 / 17592186044416)"
  by (rule fsqrt_eval [where k = "- 50" and m = "7961314590657216"]) (simp_all add: power2_eq_square)

lemma root_6: "fsqrt (Fin 100) = Fin 10"
  by (rule fsqrt_square) simp_all

lemma run_ok:
  "run init_aggr ops_ok =
     \<lparr>count_a = 2, mean = Fin 15, M2 = Fin 50, sd = Fin (124395540479019 / 17592186044416), max_a = Fin 20, min_a = Fin 0\<rparr>"
  by (simp add: ops_ok_def init_aggr_eq numInc_def numDec_def Let_def fsub_def
      root_5 root_6)

lemma run_stale:
  "run init_aggr ops_stale =
     \<lparr>count_a = 1, mean = Fin 0, M2 = Fin 0, sd = Fin (124395540479019 / 17592186044416), max_a = Fin 10, min_a = Fin 0\<rparr>"
  by (simp add: ops_stale_def init_aggr_eq numInc_def numDec_def Let_def fsub_def
      root_5)

subsection \<open>The accumulator and the multiset it holds\<close>




lemma well_used_cancel: "well_used init_aggr {#} ops_cancel"
  by (simp add: ops_cancel_def numInc_def Let_def init_aggr_eq)







text \<open>
  Each of the two conditions is needed: the first sequence of the counterexample
  rounds nowhere but removes at count one, the second removes a held value at count
  three but rounds.
\<close>

lemma conditions_needed:
  "\<not> well_used init_aggr {#} ops_drift \<and> unrounded init_aggr ops_drift \<and>
   well_used init_aggr {#} ops_cancel \<and> \<not> unrounded init_aggr ops_cancel"
proof -
  have a: "\<not> well_used init_aggr {#} ops_drift"
    by (simp add: ops_drift_def numInc_def Let_def init_aggr_eq)
  have b: "unrounded init_aggr ops_drift"
    by (simp add: ops_drift_def unrounded_inc_def unrounded_dec_def init_aggr_eq numInc_def numDec_def
        Let_def fsub_def root_1 root_2)
  have c: "\<not> unrounded init_aggr ops_cancel"
    by (simp add: ops_cancel_def unrounded_inc_def unrounded_dec_def init_aggr_eq numInc_def numDec_def
        Let_def fsub_def rounding_1 rounding_2 rounding_3 root_3 root_4)
  show ?thesis using a b well_used_cancel c by (intro conjI)
qed

subsection \<open>Removal from an aggregate of at most one value\<close>

text \<open>
  Claim C5, amended. \<^verbatim>\<open>numDec\<close> leaves the aggregate unchanged exactly when its
  count is one: with count one all six fields are kept for every value, and with any
  other count (zero included) the count itself changes.
\<close>

theorem numDec_noop_iff: "numDec a v = a \<longleftrightarrow> count_a a = 1"
proof
  assume e: "numDec a v = a"
  show "count_a a = 1"
  proof (rule ccontr)
    assume n: "count_a a \<noteq> 1"
    then have "count_a (numDec a v) = count_a a - 1" by (simp add: numDec_def Let_def)
    with e show False by simp
  qed
next
  assume "count_a a = 1"
  then show "numDec a v = a" by (simp add: numDec_def)
qed

text \<open>
  On the empty aggregate the guard \<^verbatim>\<open>count == 1\<close> does not fire: removing 5 gives
  count \<open>-1\<close> and mean 5.
\<close>

theorem numDec_empty_counterexample:
  "count_a init_aggr \<le> 1 \<and> count_a (numDec init_aggr (Fin 5)) = - 1 \<and>
   mean (numDec init_aggr (Fin 5)) = Fin 5 \<and> numDec init_aggr (Fin 5) \<noteq> init_aggr"
proof -
  have "count_a (numDec init_aggr (Fin 5)) = - 1 \<and> mean (numDec init_aggr (Fin 5)) = Fin 5"
    by (simp add: numDec_def init_aggr_eq Let_def fsub_def)
  moreover have "count_a init_aggr = 0" by (simp add: init_aggr_def)
  ultimately show ?thesis by auto
qed

subsection \<open>The standard deviation of fewer than two values\<close>

text \<open>
  Claim C6 fails after insert 0, insert 10, remove 10: the count is back to one and
  \<^verbatim>\<open>sd\<close> still holds the value computed for the two values, the double nearest to
  the root of 50, which is 7.0710678118654755.
\<close>

theorem sd_stale_counterexample:
  "count_a (run init_aggr ops_stale) < 2 \<and>
   sd (run init_aggr ops_stale) = fsqrt (Fin 50) \<and>
   sd (run init_aggr ops_stale) = Fin (124395540479019 / 17592186044416) \<and>
   fless (Fin 7) (sd (run init_aggr ops_stale)) \<and>
   sd (run init_aggr ops_stale) \<noteq> Fin 0"
  by (simp add: run_stale root_5)

text \<open>
  Claim C6, amended. After every sequence of \<^verbatim>\<open>numInc\<close> and \<^verbatim>\<open>numDec\<close> calls from
  the initial aggregate, \<^verbatim>\<open>sd\<close> is the value that the last call which left a count of
  at least two computed from \<^verbatim>\<open>M2\<close> and \<^verbatim>\<open>count\<close>, and 0 if no call left such a count;
  in particular, if the count never reaches two, it is below two at the end and
  \<^verbatim>\<open>sd\<close> is 0.
\<close>

theorem sd_is_last_computed:
  "sd (run init_aggr ops) = sd_last (Fin 0) (states init_aggr ops) \<and>
   (below2 init_aggr ops \<longrightarrow> count_a (run init_aggr ops) < 2 \<and> sd (run init_aggr ops) = Fin 0)"
proof -
  have "sd (run init_aggr ops) = sd_last (sd init_aggr) (states init_aggr ops)" by (rule sd_run)
  moreover have "sd init_aggr = Fin 0" by (simp add: init_aggr_def)
  ultimately show ?thesis using below2_run [of init_aggr ops] by simp
qed

text \<open>
  The theorem at insert 3, remove 3, where the count stays below two, and at insert
  0, insert 10, remove 10, where the last call that left a count of two is the second.
\<close>

theorem sd_is_last_computed_witness:
  "below2 init_aggr [Insert (Fin 3), Remove (Fin 3)] \<and>
   sd (run init_aggr [Insert (Fin 3), Remove (Fin 3)]) = Fin 0 \<and>
   sd_last (Fin 0) (states init_aggr ops_stale) = Fin (124395540479019 / 17592186044416) \<and>
   sd (run init_aggr ops_stale) = Fin (124395540479019 / 17592186044416)"
proof -
  have h: "below2 init_aggr [Insert (Fin 3), Remove (Fin 3)]"
    by (simp add: numInc_def numDec_def init_aggr_def Let_def)
  have z: "sd (run init_aggr [Insert (Fin 3), Remove (Fin 3)]) = Fin 0"
    using sd_is_last_computed [of "[Insert (Fin 3), Remove (Fin 3)]", THEN conjunct2] h by simp
  have l: "sd_last (Fin 0) (states init_aggr ops_stale) = Fin (124395540479019 / 17592186044416)"
    by (simp add: ops_stale_def init_aggr_eq numInc_def numDec_def Let_def fsub_def sd_formula_def
        root_5)
  have s: "sd (run init_aggr ops_stale) = Fin (124395540479019 / 17592186044416)"
    using sd_is_last_computed [of ops_stale, THEN conjunct1] l by simp
  show ?thesis using h z l s by (intro conjI)
qed

section \<open>Properties of the split finder and the driver\<close>

subsection \<open>The invariant of the scan\<close>






subsection \<open>What the guard looks at\<close>









subsection \<open>The scan of the five-row table\<close>

text \<open>
  Every call of \<^verbatim>\<open>numInc\<close> and \<^verbatim>\<open>numDec\<close> and every iteration of the scan on this
  table, evaluated. The lemmas named \<open>rounding\<close> and \<open>root\<close> are the roundings and
  square roots on the way that the general rules do not cover.
\<close>

lemma floor_sqrt_5: "\<lfloor>sqrt (5::real)\<rfloor> = 2"
proof (rule floor_unique)
  show "of_int 2 \<le> sqrt (5::real)" by (simp add: real_le_rsqrt)
  have "sqrt (5::real) < 3" by (rule real_less_lsqrt) simp_all
  then show "sqrt (5::real) < of_int 2 + 1" by simp
qed

lemma upt_5: "[0..<5] = [0, 1, 2, 3, 4]"
  by (simp add: upt_rec)

lemma inc_low1: "numInc init_aggr (Fin 0) = low1"
  by (simp add: numInc_def init_aggr_eq low1_def Let_def fsub_def)

lemma inc_low2: "numInc low1 (Fin 0) = low2"
  by (simp add: numInc_def low1_def low2_def Let_def fsub_def)

lemma root_7: "fsqrt (Fin 3) = Fin (3900231685776981 / 2251799813685248)"
  by (rule fsqrt_eval [where k = "- 52" and m = "7800463371553962"]) (simp_all add: power2_eq_square)

lemma inc_low3: "numInc low2 (Fin 3) = low3"
  by (simp add: numInc_def low2_def low3_def Let_def fsub_def
      root_7)

lemma root_8: "fsqrt (Fin (33 / 4)) = Fin (404237659286799 / 140737488355328)"
  by (rule fsqrt_eval [where k = "- 51" and m = "6467802548588784"]) (simp_all add: power2_eq_square)

lemma inc_low4: "numInc low3 (Fin 6) = low4"
  by (simp add: numInc_def low3_def low4_def Let_def fsub_def
      root_8)

lemma root_9: "fsqrt (Fin 9) = Fin 3"
  by (rule fsqrt_square) simp_all

lemma inc_low5: "numInc low4 (Fin 6) = low5"
  by (simp add: numInc_def low4_def low5_def Let_def fsub_def
      root_9)

lemma dec_0: "numDec low5 (Fin 0) = high4"
  by (simp add: numDec_def low5_def high4_def Let_def fsub_def
      root_8)

lemma dec_1: "numDec high4 (Fin 0) = high3"
  by (simp add: numDec_def high4_def high3_def Let_def fsub_def
      root_7)

lemma dec_2: "numDec high3 (Fin 3) = high2"
  by (simp add: numDec_def high3_def high2_def Let_def fsub_def)

lemma dec_3: "numDec high2 (Fin 6) = high1"
  by (simp add: numDec_def high2_def high1_def Let_def fsub_def)

lemma dec_4: "numDec high1 (Fin 6) = high1"
  by (simp add: numDec_def high1_def)

lemma low1_fields:
  "count_a low1 = 1" "mean low1 = Fin 0" "M2 low1 = Fin 0" "sd low1 = Fin 0" "max_a low1 = Fin 0" "min_a low1 = Fin 0"
  by (simp_all add: low1_def)

lemma low2_fields:
  "count_a low2 = 2" "mean low2 = Fin 0" "M2 low2 = Fin 0" "sd low2 = Fin 0" "max_a low2 = Fin 0" "min_a low2 = Fin 0"
  by (simp_all add: low2_def)

lemma low3_fields:
  "count_a low3 = 3" "mean low3 = Fin 1" "M2 low3 = Fin 6" "sd low3 = Fin (3900231685776981 / 2251799813685248)" "max_a low3 = Fin 3" "min_a low3 = Fin 0"
  by (simp_all add: low3_def)

lemma low4_fields:
  "count_a low4 = 4" "mean low4 = Fin (9 / 4)" "M2 low4 = Fin (99 / 4)" "sd low4 = Fin (404237659286799 / 140737488355328)" "max_a low4 = Fin 6" "min_a low4 = Fin 0"
  by (simp_all add: low4_def)

lemma low5_fields:
  "count_a low5 = 5" "mean low5 = Fin 3" "M2 low5 = Fin 36" "sd low5 = Fin 3" "max_a low5 = Fin 6" "min_a low5 = Fin 0"
  by (simp_all add: low5_def)

lemma high4_fields:
  "count_a high4 = 4" "mean high4 = Fin (15 / 4)" "M2 high4 = Fin (99 / 4)" "sd high4 = Fin (404237659286799 / 140737488355328)" "max_a high4 = Fin 6" "min_a high4 = Fin 0"
  by (simp_all add: high4_def)

lemma high3_fields:
  "count_a high3 = 3" "mean high3 = Fin 5" "M2 high3 = Fin 6" "sd high3 = Fin (3900231685776981 / 2251799813685248)" "max_a high3 = Fin 6" "min_a high3 = Fin 0"
  by (simp_all add: high3_def)

lemma high2_fields:
  "count_a high2 = 2" "mean high2 = Fin 6" "M2 high2 = Fin 0" "sd high2 = Fin 0" "max_a high2 = Fin 6" "min_a high2 = Fin 0"
  by (simp_all add: high2_def)

lemma high1_fields:
  "count_a high1 = 1" "mean high1 = Fin 6" "M2 high1 = Fin 0" "sd high1 = Fin 0" "max_a high1 = Fin 6" "min_a high1 = Fin 0"
  by (simp_all add: high1_def)

lemma getStdDev_00: "getStdDev col 0 0 = init_aggr"
  by (simp add: getStdDev_def)

lemma getStdDev_5: "getStdDev [Fin 0, Fin 0, Fin 3, Fin 6, Fin 6] 0 5 = low5"
  by (simp add: getStdDev_def upt_5 inc_low1 inc_low2 inc_low3 inc_low4 inc_low5)

lemma rounding_4: "round_double (16212958658533785 / 18014398509481984) = Fin (2026619832316723 / 2251799813685248)"
  by (rule round_double_eval [where k = "- 53" and m = "8106479329266892"]) (simp_all add: nearest_even_def)

lemma minRise_5: "fmul COHEN (sd low5) = Fin (2026619832316723 / 2251799813685248)"
  by (simp add: COHEN_eq low5_fields rounding_4)

lemma g5_fields:
  "rows g5 = rows5" "numRows g5 = 5" "lastCol g5 = [Fin 0, Fin 0, Fin 3, Fin 6, Fin 6]" "minBinSize g5 = 2" "minRise g5 = Fin (2026619832316723 / 2251799813685248)"
  by (simp_all add: g5_def)

lemma initValues_5: "initValues rows5 = Inr g5"
proof -
  have n: "Suc (Suc (Suc (Suc (Suc 0)))) = (5::nat)" by simp
  have "getStdDev [Fin 0, Fin 0, Fin 3, Fin 6, Fin 6] 0 (Suc (Suc (Suc (Suc (Suc 0))))) = low5"
    unfolding n by (rule getStdDev_5)
  then show ?thesis
    by (simp add: initValues_def rows5_def g5_def Let_def floor_sqrt_5 minRise_5)
qed

lemma start_5: "argmin_start g5 0 = scan0"
  by (simp add: argmin_start_def g5_fields getStdDev_5 getStdDev_00 scan0_def Let_def low5_fields)

lemma step_0: "argmin_step g5 scan0 0 = scan1"
  by (simp add: argmin_step_def scan0_def scan1_def g5_fields Let_def inc_low1 dec_0
      low1_fields high4_fields fsub_def)

lemma step_1: "argmin_step g5 scan1 (Suc 0) = scan2"
  by (simp add: argmin_step_def scan1_def scan2_def g5_fields Let_def inc_low2 dec_1
      low2_fields high3_fields fsub_def)

lemma rounding_5: "round_double (2766445080857383339476156276479 / 2535301200456458802993406410752) = Fin (307137102512887 / 281474976710656)"
  by (rule round_double_eval [where k = "- 52" and m = "4914193640206192"]) (simp_all add: nearest_even_def)

lemma rounding_6: "round_double (368942260171820516141 / 73786976294838206464) = Fin (1407403031050951 / 281474976710656)"
  by (rule round_double_eval [where k = "- 50" and m = "5629612124203804"]) (simp_all add: nearest_even_def)

lemma rounding_7: "round_double (844424930131968 / 1407403031050951) = Fin (5404211468615223 / 9007199254740992)"
  by (rule round_double_eval [where k = "- 53" and m = "5404211468615223"]) (simp_all add: nearest_even_def)

lemma rounding_8: "round_double (21077676806532445449036879581763 / 20282409603651670423947251286016) = Fin (585023052405499 / 562949953421312)"
  by (rule round_double_eval [where k = "- 52" and m = "4680184419243992"]) (simp_all add: nearest_even_def)

lemma rounding_9: "round_double (562949953421312 / 1407403031050951) = Fin (1801403822871741 / 4503599627370496)"
  by (rule round_double_eval [where k = "- 54" and m = "7205615291486964"]) (simp_all add: nearest_even_def)

lemma rounding_10: "round_double (585023052405499 / 562949953421312) = Fin (585023052405499 / 562949953421312)"
  by (rule round_double_exact [where m = "4680184419243992" and k = "- 52"]) simp_all

lemma gtv_at_2: "getTotalVariance low3 high2 = Fin (585023052405499 / 562949953421312)"
  by (simp add: getTotalVariance_def Let_def low3_fields high2_fields round_c0001
      rounding_6 rounding_7 rounding_8 rounding_9 rounding_10)

lemma step_2: "argmin_step g5 scan2 2 = scan3"
  by (simp add: argmin_step_def scan2_def scan3_def g5_fields Let_def inc_low3 dec_2
      low3_fields high2_fields fsub_def gtv_at_2 round_c105
      rounding_5)

lemma step_3: "argmin_step g5 scan3 3 = scan4"
  by (simp add: argmin_step_def scan3_def scan4_def g5_fields Let_def inc_low4 dec_3
      low4_fields high1_fields fsub_def)

lemma step_4: "argmin_step g5 scan4 4 = scan5"
  by (simp add: argmin_step_def scan4_def scan5_def g5_fields Let_def inc_low5 dec_4
      low5_fields high1_fields fsub_def)

lemma argmin_5: "argmin g5 0 5 = Some 3"
proof -
  have "foldl (argmin_step g5) (argmin_start g5 0) [0..<5] = scan5"
    by (simp add: upt_5 start_5 step_0 step_1 step_2 step_3 step_4)
  then show ?thesis by (simp add: argmin_def scan5_def g5_fields)
qed


subsection \<open>The result of the scan\<close>




subsection \<open>The driver\<close>

text \<open>
  Claim C1 fails on a table of one row. \<^verbatim>\<open>numRows - 0 > minBinSize\<close> is \<open>1 > 1\<close>, so
  the first loop never assigns \<^verbatim>\<open>prevCut\<close>, the second loop starts at
  \<^verbatim>\<open>undefined\<close> and does not run: the row is not printed at all.
\<close>

theorem calcSplits_single_row_lost: "argmin_main [[Fin 5]] = Inr []"
proof -
  have "\<exists>g. initValues [[Fin 5]] = Inr g \<and> numRows g = 1 \<and> minBinSize g = 1"
    by (simp add: initValues_def Let_def)
  then obtain g where i: "initValues [[Fin 5]] = Inr g" and n: "numRows g = 1" "minBinSize g = 1"
    by (elim exE conjE)
  have "main_loop g 0 (Some 0) None [] = (None, [])"
    using n by (subst main_loop.simps, simp, subst main_loop.simps, simp)
  then show ?thesis by (simp add: argmin_main_def i calcSplits_def)
qed

text \<open>
  On the five rows 0, 0, 3, 6, 6 the first cut is 3. The first loop prints the rows 0
  to 2 and ends, as the two rows left are not more than \<^verbatim>\<open>minBinSize\<close>; \<^verbatim>\<open>prevCut\<close> is
  still 0, so the second loop prints all five rows, the first three a second time.
\<close>

lemma main_loop_5:
  "main_loop g5 0 (Some 0) None [] = (Some 0, [([Fin 0], 3), ([Fin 0], 3), ([Fin 3], 3)])"
proof -
  let ?out = "[([Fin 0], 3), ([Fin 0], 3), ([Fin 3], 3)]"
  have "main_loop g5 5 (Some 3) (Some 0) ?out = (Some 0, ?out)"
    by (subst main_loop.simps) (simp add: g5_fields)
  then have "main_loop g5 4 (Some 3) (Some 0) ?out = (Some 0, ?out)"
    by (subst main_loop.simps) (simp add: g5_fields)
  then have "main_loop g5 3 (Some 3) (Some 0) ?out = (Some 0, ?out)"
    by (subst main_loop.simps) (simp add: g5_fields)
  moreover have "[0..<3] = [0, 1, 2]" by (simp add: upt_rec)
  ultimately show ?thesis
    by (subst main_loop.simps) (simp add: g5_fields argmin_5 rows5_def)
qed

lemma calcSplits_rows5_twice:
  "argmin_main rows5 =
     Inr [([Fin 0], 3), ([Fin 0], 3), ([Fin 3], 3),
          ([Fin 0], 5), ([Fin 0], 5), ([Fin 3], 5), ([Fin 6], 5), ([Fin 6], 5)]"
  unfolding argmin_main_def initValues_5
  by (simp add: calcSplits_def main_loop_5 g5_fields upt_5 rows5_def)

text \<open>\<^verbatim>\<open>minBinSize\<close> never exceeds the number of rows.\<close>

lemma minBinSize_le_numRows:
  assumes "initValues rs = Inr g"
  shows "minBinSize g \<le> numRows g"
proof -
  from assms have m: "minBinSize g = nat \<lfloor>sqrt (real (length rs))\<rfloor>" and n: "numRows g = length rs"
    by (simp_all add: initValues_def Let_def split: list.splits, auto)
  have "sqrt (real (length rs)) \<le> real (length rs)"
  proof (cases rs)
    case Nil
    then show ?thesis by simp
  next
    case (Cons r rs')
    then have "1 \<le> real (length rs)" by simp
    then have "real (length rs) \<le> (real (length rs))\<^sup>2"
      by (rule self_le_power) simp
    then have "sqrt (real (length rs)) \<le> sqrt ((real (length rs))\<^sup>2)"
      by (simp only: real_sqrt_le_iff)
    then show ?thesis by simp
  qed
  then have "\<lfloor>sqrt (real (length rs))\<rfloor> \<le> \<lfloor>real (length rs)\<rfloor>" by (rule floor_mono)
  then have "\<lfloor>sqrt (real (length rs))\<rfloor> \<le> int (length rs)" by simp
  then show ?thesis by (simp add: m n)
qed

text \<open>
  The empty table makes \<^verbatim>\<open>initValues\<close> throw. For a table of at least two rows on
  which the first scan finds no split, the driver prints every row once, with the
  number of rows as its cut value.
\<close>

lemma initValues_empty: "initValues [] = Inl TypeError"
  by (simp add: initValues_def)

lemma minBinSize_lt_numRows:
  assumes "initValues rs = Inr g" and "2 \<le> length rs"
  shows "minBinSize g < numRows g"
proof -
  from assms(1) have m: "minBinSize g = nat \<lfloor>sqrt (real (length rs))\<rfloor>" and n: "numRows g = length rs"
    by (simp_all add: initValues_def Let_def split: list.splits, auto)
  have "1 < real (length rs)" using assms(2) by simp
  then have "real (length rs) * 1 < real (length rs) * real (length rs)"
    by (intro mult_strict_left_mono) auto
  then have "real (length rs) < (real (length rs))\<^sup>2"
    by (simp add: power2_eq_square)
  then have "sqrt (real (length rs)) < sqrt ((real (length rs))\<^sup>2)"
    by (simp only: real_sqrt_less_iff)
  then have "sqrt (real (length rs)) < real (length rs)" by simp
  then have "\<lfloor>sqrt (real (length rs))\<rfloor> < int (length rs)" by (simp add: floor_less_iff)
  then show ?thesis using assms(2) by (simp add: m n)
qed

lemma calcSplits_no_split:
  assumes i: "initValues rs = Inr g" and two: "2 \<le> length rs"
    and none: "argmin g 0 (numRows g) = None"
  shows "calcSplits g = map (\<lambda>i. (rs ! i, length rs)) [0..<length rs]"
proof -
  from i have n: "numRows g = length rs" and r: "rows g = rs"
    by (simp_all add: initValues_def Let_def split: list.splits, auto)
  have lt: "minBinSize g < numRows g" by (rule minBinSize_lt_numRows [OF i two])
  have "main_loop g 0 (Some 0) None [] = (Some 0, [])"
    using lt none two n by (subst main_loop.simps) auto
  then show ?thesis by (simp add: calcSplits_def n r)
qed
subsection \<open>The scan of the three-row table\<close>

text \<open>
  Every call of \<^verbatim>\<open>numInc\<close> and \<^verbatim>\<open>numDec\<close> and every iteration of the scan on this
  table, evaluated. The lemmas named \<open>rounding\<close> and \<open>root\<close> are the roundings and
  square roots on the way that the general rules do not cover.
\<close>

lemma floor_sqrt_3: "\<lfloor>sqrt (3::real)\<rfloor> = 1"
proof (rule floor_unique)
  show "of_int 1 \<le> sqrt (3::real)" by (simp add: real_le_rsqrt)
  have "sqrt (3::real) < 2" by (rule real_less_lsqrt) simp_all
  then show "sqrt (3::real) < of_int 1 + 1" by simp
qed

lemma upt_3: "[0..<3] = [0, 1, 2]"
  by (simp add: upt_rec)

lemma inc_tlow1: "numInc init_aggr (Fin 0) = tlow1"
  by (simp add: numInc_def init_aggr_eq tlow1_def Let_def fsub_def)

lemma inc_tlow2: "numInc tlow1 (Fin 10) = tlow2"
  by (simp add: numInc_def tlow1_def tlow2_def Let_def fsub_def
      root_5)

lemma rounding_11: "round_double (5 / 3) = Fin (7505999378950827 / 4503599627370496)"
  by (rule round_double_eval [where k = "- 52" and m = "7505999378950827"]) (simp_all add: nearest_even_def)

lemma rounding_12: "round_double (30023997515803307 / 4503599627370496) = Fin (7505999378950827 / 1125899906842624)"
  by (rule round_double_eval [where k = "- 50" and m = "7505999378950827"]) (simp_all add: nearest_even_def)

lemma rounding_13: "round_double (3752999689475413 / 1125899906842624) = Fin (3752999689475413 / 1125899906842624)"
  by (rule round_double_exact [where m = "7505999378950826" and k = "- 51"]) simp_all

lemma rounding_14: "round_double (18764998447377065 / 1125899906842624) = Fin (2345624805922133 / 140737488355328)"
  by (rule round_double_eval [where k = "- 48" and m = "4691249611844266"]) (simp_all add: nearest_even_def)

lemma rounding_15: "round_double (9382499223688533 / 140737488355328) = Fin (2345624805922133 / 35184372088832)"
  by (rule round_double_eval [where k = "- 46" and m = "4691249611844266"]) (simp_all add: nearest_even_def)

lemma rounding_16: "round_double (2345624805922133 / 70368744177664) = Fin (2345624805922133 / 70368744177664)"
  by (rule round_double_exact [where m = "4691249611844266" and k = "- 47"]) simp_all

lemma root_10: "fsqrt (Fin (2345624805922133 / 70368744177664)) = Fin (6500386142961635 / 1125899906842624)"
  by (rule fsqrt_eval [where k = "- 50" and m = "6500386142961635"]) (simp_all add: power2_eq_square)

lemma inc_tlow3: "numInc tlow2 (Fin 10) = tlow3"
  by (simp add: numInc_def tlow2_def tlow3_def Let_def fsub_def
      rounding_11 rounding_12 rounding_13 rounding_14 rounding_15 rounding_16 root_10)

lemma rounding_17: "round_double (- (7505999378950827 / 1125899906842624)) = Fin (- (7505999378950827 / 1125899906842624))"
  by (rule round_double_exact [where m = "- 7505999378950827" and k = "- 50"]) simp_all

lemma rounding_18: "round_double (- (7505999378950827 / 2251799813685248)) = Fin (- (7505999378950827 / 2251799813685248))"
  by (rule round_double_exact [where m = "- 7505999378950827" and k = "- 51"]) simp_all

lemma rounding_19: "round_double (22517998136852481 / 2251799813685248) = Fin 10"
  by (rule round_double_eval [where k = "- 49" and m = "5629499534213120"]) (simp_all add: nearest_even_def)

lemma rounding_20: "round_double (37529996894754135 / 562949953421312) = Fin (4691249611844267 / 70368744177664)"
  by (rule round_double_eval [where k = "- 46" and m = "4691249611844267"]) (simp_all add: nearest_even_def)

lemma rounding_21: "round_double (- (1 / 70368744177664)) = Fin (- (1 / 70368744177664))"
  by (rule round_double_exact [where m = "- 4503599627370496" and k = "- 98"]) simp_all

lemma tdec_0: "numDec tlow3 (Fin 0) = thigh2"
  by (simp add: numDec_def tlow3_def thigh2_def Let_def fsub_def
      rounding_17 rounding_18 rounding_19 rounding_20 rounding_21)

lemma tdec_1: "numDec thigh2 (Fin 10) = thigh1"
  by (simp add: numDec_def thigh2_def thigh1_def Let_def fsub_def
      rounding_21)

lemma tdec_2: "numDec thigh1 (Fin 10) = thigh1"
  by (simp add: numDec_def thigh1_def)

lemma tlow1_fields:
  "count_a tlow1 = 1" "mean tlow1 = Fin 0" "M2 tlow1 = Fin 0" "sd tlow1 = Fin 0" "max_a tlow1 = Fin 0" "min_a tlow1 = Fin 0"
  by (simp_all add: tlow1_def)

lemma tlow2_fields:
  "count_a tlow2 = 2" "mean tlow2 = Fin 5" "M2 tlow2 = Fin 50" "sd tlow2 = Fin (124395540479019 / 17592186044416)" "max_a tlow2 = Fin 10" "min_a tlow2 = Fin 0"
  by (simp_all add: tlow2_def)

lemma tlow3_fields:
  "count_a tlow3 = 3" "mean tlow3 = Fin (7505999378950827 / 1125899906842624)" "M2 tlow3 = Fin (2345624805922133 / 35184372088832)" "sd tlow3 = Fin (6500386142961635 / 1125899906842624)" "max_a tlow3 = Fin 10" "min_a tlow3 = Fin 0"
  by (simp_all add: tlow3_def)

lemma thigh2_fields:
  "count_a thigh2 = 2" "mean thigh2 = Fin 10" "M2 thigh2 = Fin (- (1 / 70368744177664))" "sd thigh2 = NaN" "max_a thigh2 = Fin 10" "min_a thigh2 = Fin 0"
  by (simp_all add: thigh2_def)

lemma thigh1_fields:
  "count_a thigh1 = 1" "mean thigh1 = Fin 10" "M2 thigh1 = Fin (- (1 / 70368744177664))" "sd thigh1 = NaN" "max_a thigh1 = Fin 10" "min_a thigh1 = Fin 0"
  by (simp_all add: thigh1_def)

lemma getStdDev_3: "getStdDev [Fin 0, Fin 10, Fin 10] 0 3 = tlow3"
  by (simp add: getStdDev_def upt_3 inc_tlow1 inc_tlow2 inc_tlow3)

lemma rounding_22: "round_double (35130163933447624850802202112825 / 20282409603651670423947251286016) = Fin (3900231685776981 / 2251799813685248)"
  by (rule round_double_eval [where k = "- 52" and m = "7800463371553962"]) (simp_all add: nearest_even_def)

lemma minRise_3: "fmul COHEN (sd tlow3) = Fin (3900231685776981 / 2251799813685248)"
  by (simp add: COHEN_eq tlow3_fields rounding_22)

lemma g3_fields:
  "rows g3 = rows3" "numRows g3 = 3" "lastCol g3 = [Fin 0, Fin 10, Fin 10]" "minBinSize g3 = 1" "minRise g3 = Fin (3900231685776981 / 2251799813685248)"
  by (simp_all add: g3_def)

lemma initValues_3: "initValues rows3 = Inr g3"
proof -
  have n: "Suc (Suc (Suc 0)) = (3::nat)" by simp
  have "getStdDev [Fin 0, Fin 10, Fin 10] 0 (Suc (Suc (Suc 0))) = tlow3"
    unfolding n by (rule getStdDev_3)
  then show ?thesis
    by (simp add: initValues_def rows3_def g3_def Let_def floor_sqrt_3 minRise_3)
qed

lemma start_3: "argmin_start g3 0 = tscan0"
  by (simp add: argmin_start_def g3_fields getStdDev_3 getStdDev_00 tscan0_def Let_def tlow3_fields)

lemma tstep_0: "argmin_step g3 tscan0 0 = tscan1"
  by (simp add: argmin_step_def tscan0_def tscan1_def g3_fields Let_def inc_tlow1 tdec_0
      tlow1_fields thigh2_fields fsub_def)

lemma rounding_23: "round_double (221368307582144103213 / 73786976294838206464) = Fin (6755624621037113 / 2251799813685248)"
  by (rule round_double_eval [where k = "- 51" and m = "6755624621037113"]) (simp_all add: nearest_even_def)

lemma rounding_24: "round_double (4503599627370496 / 6755624621037113) = Fin (6004599349848999 / 9007199254740992)"
  by (rule round_double_eval [where k = "- 53" and m = "6004599349848999"]) (simp_all add: nearest_even_def)

lemma rounding_25: "round_double (746945381484432325029777651981 / 158456325028528675187087900672) = Fin (2653683074116601 / 562949953421312)"
  by (rule round_double_eval [where k = "- 50" and m = "5307366148233202"]) (simp_all add: nearest_even_def)

lemma rounding_26: "round_double (2251799813685248 / 6755624621037113) = Fin (6004599349848999 / 18014398509481984)"
  by (rule round_double_eval [where k = "- 54" and m = "6004599349848999"]) (simp_all add: nearest_even_def)

lemma tgtv_at_1: "getTotalVariance tlow2 thigh1 = NaN"
  by (simp add: getTotalVariance_def Let_def tlow2_fields thigh1_fields round_c0001
      rounding_23 rounding_24 rounding_25 rounding_26)

lemma tstep_1: "argmin_step g3 tscan1 (Suc 0) = tscan2"
  by (simp add: argmin_step_def tscan1_def tscan2_def g3_fields Let_def inc_tlow2 tdec_1
      tlow2_fields thigh1_fields fsub_def tgtv_at_1 round_c105)

lemma rounding_27: "round_double (295155283876982309677 / 73786976294838206464) = Fin (1125928054340295 / 281474976710656)"
  by (rule round_double_eval [where k = "- 50" and m = "4503712217361180"]) (simp_all add: nearest_even_def)

lemma rounding_28: "round_double (281474976710656 / 375309351446765) = Fin (6755230560291737 / 9007199254740992)"
  by (rule round_double_eval [where k = "- 53" and m = "6755230560291737"]) (simp_all add: nearest_even_def)

lemma rounding_29: "round_double (43911607126631368811754798509995 / 10141204801825835211973625643008) = Fin (2437583864014013 / 562949953421312)"
  by (rule round_double_eval [where k = "- 50" and m = "4875167728028026"]) (simp_all add: nearest_even_def)

lemma rounding_30: "round_double (281474976710656 / 1125928054340295) = Fin (9006974080388983 / 36028797018963968)"
  by (rule round_double_eval [where k = "- 55" and m = "9006974080388983"]) (simp_all add: nearest_even_def)

lemma tgtv_at_2: "getTotalVariance tlow3 thigh1 = NaN"
  by (simp add: getTotalVariance_def Let_def tlow3_fields thigh1_fields round_c0001
      rounding_27 rounding_28 rounding_29 rounding_30)

lemma tstep_2: "argmin_step g3 tscan2 2 = tscan3"
  by (simp add: argmin_step_def tscan2_def tscan3_def g3_fields Let_def inc_tlow3 tdec_2
      tlow3_fields thigh1_fields fsub_def tgtv_at_2 round_c105)

lemma argmin_3: "argmin g3 0 3 = None"
proof -
  have "foldl (argmin_step g3) (argmin_start g3 0) [0..<3] = tscan3"
    by (simp add: upt_3 start_3 tstep_0 tstep_1 tstep_2)
  then show ?thesis by (simp add: argmin_def tscan3_def g3_fields)
qed

text \<open>
  On the rows 0, 10, 10 rounding makes every cost NaN. Removing 0 from the aggregate
  of the three rows leaves \<^verbatim>\<open>M2\<close> at \<^verbatim>\<open>-2^-46\<close>, where the exact value is 0, and the
  root of a negative number is NaN. The guard holds at the splits 1 and 2, but a NaN
  cost is below nothing: no split is recorded, \<open>argmin\<close> returns NaN and the driver
  prints each row once, with the number of rows as its cut value.
\<close>

lemma accepted_3: "accepted g3 0 (Suc 0) \<and> cost g3 0 (Suc 0) = NaN"
proof -
  have u: "[0..<Suc (Suc 0)] = [0, Suc 0]" by simp
  have b: "below_at g3 0 (Suc 0) = tlow2"
    unfolding below_at_def u by (simp add: g3_fields getStdDev_00 inc_tlow1 inc_tlow2)
  have a: "above_at g3 0 (Suc 0) = thigh1"
    unfolding above_at_def u by (simp add: g3_fields getStdDev_3 tdec_0 tdec_1)
  show ?thesis
    by (simp add: accepted_def cost_def a b tlow2_fields thigh1_fields g3_fields fsub_def tgtv_at_1)
qed

lemma calcSplits_rows3_nan:
  "argmin g3 0 3 = None \<and>
   argmin_main rows3 = Inr [([Fin 0], 3), ([Fin 10], 3), ([Fin 10], 3)]"
proof -
  have n: "argmin g3 0 (numRows g3) = None" using argmin_3 by (simp add: g3_fields)
  have "calcSplits g3 = map (\<lambda>i. (rows3 ! i, length rows3)) [0..<length rows3]"
    by (rule calcSplits_no_split [OF initValues_3 _ n]) (simp add: rows3_def)
  moreover have "length rows3 = 3" by (simp add: rows3_def)
  ultimately have "calcSplits g3 = [([Fin 0], 3), ([Fin 10], 3), ([Fin 10], 3)]"
    by (simp add: upt_3 rows3_def)
  then have "argmin_main rows3 = Inr [([Fin 0], 3), ([Fin 10], 3), ([Fin 10], 3)]"
    unfolding argmin_main_def initValues_3 by simp
  then show ?thesis using argmin_3 by (intro conjI)
qed
subsection \<open>The scan of the seven-row table\<close>

text \<open>
  Every call of \<^verbatim>\<open>numInc\<close> and \<^verbatim>\<open>numDec\<close> and every iteration of the scan on this
  table, evaluated. The lemmas named \<open>rounding\<close> and \<open>root\<close> are the roundings and
  square roots on the way that the general rules do not cover.
\<close>

lemma floor_sqrt_7: "\<lfloor>sqrt (7::real)\<rfloor> = 2"
proof (rule floor_unique)
  show "of_int 2 \<le> sqrt (7::real)" by (simp add: real_le_rsqrt)
  have "sqrt (7::real) < 3" by (rule real_less_lsqrt) simp_all
  then show "sqrt (7::real) < of_int 2 + 1" by simp
qed

lemma upt_7: "[0..<7] = [0, 1, 2, 3, 4, 5, 6]"
  by (simp add: upt_rec)

lemma inc_ulow1: "numInc init_aggr (Fin 4) = ulow1"
  by (simp add: numInc_def init_aggr_eq ulow1_def Let_def fsub_def)

lemma root_11: "fsqrt (Fin 2) = Fin (6369051672525773 / 4503599627370496)"
  by (rule fsqrt_eval [where k = "- 52" and m = "6369051672525773"]) (simp_all add: power2_eq_square)

lemma inc_ulow2: "numInc ulow1 (Fin 6) = ulow2"
  by (simp add: numInc_def ulow1_def ulow2_def Let_def fsub_def
      root_11)

lemma root_12: "fsqrt (Fin 4) = Fin 2"
  by (rule fsqrt_square) simp_all

lemma inc_ulow3: "numInc ulow2 (Fin 8) = ulow3"
  by (simp add: numInc_def ulow2_def ulow3_def Let_def fsub_def
      root_12)

lemma rounding_31: "round_double (59 / 12) = Fin (5535674541976235 / 1125899906842624)"
  by (rule round_double_eval [where k = "- 50" and m = "5535674541976235"]) (simp_all add: nearest_even_def)

lemma root_13: "fsqrt (Fin (5535674541976235 / 1125899906842624)) = Fin (4993041338151379 / 2251799813685248)"
  by (rule fsqrt_eval [where k = "- 51" and m = "4993041338151379"]) (simp_all add: power2_eq_square)

lemma inc_ulow4: "numInc ulow3 (Fin 9) = ulow4"
  by (simp add: numInc_def ulow3_def ulow4_def Let_def fsub_def
      rounding_31 root_13)

lemma rounding_32: "round_double (13 / 20) = Fin (5854679515581645 / 9007199254740992)"
  by (rule round_double_eval [where k = "- 53" and m = "5854679515581645"]) (simp_all add: nearest_even_def)

lemma rounding_33: "round_double (66653274485083341 / 9007199254740992) = Fin (4165829655317709 / 562949953421312)"
  by (rule round_double_eval [where k = "- 50" and m = "8331659310635418"]) (simp_all add: nearest_even_def)

lemma rounding_34: "round_double (1463669878895411 / 562949953421312) = Fin (1463669878895411 / 562949953421312)"
  by (rule round_double_exact [where m = "5854679515581644" and k = "- 51"]) simp_all

lemma rounding_35: "round_double (19027708425640343 / 2251799813685248) = Fin (2378463553205043 / 281474976710656)"
  by (rule round_double_eval [where k = "- 49" and m = "4756927106410086"]) (simp_all add: nearest_even_def)

lemma rounding_36: "round_double (6530219459687219 / 281474976710656) = Fin (6530219459687219 / 281474976710656)"
  by (rule round_double_exact [where m = "6530219459687219" and k = "- 48"]) simp_all

lemma rounding_37: "round_double (6530219459687219 / 1125899906842624) = Fin (6530219459687219 / 1125899906842624)"
  by (rule round_double_exact [where m = "6530219459687219" and k = "- 50"]) simp_all

lemma root_14: "fsqrt (Fin (6530219459687219 / 1125899906842624)) = Fin (5423052085799557 / 2251799813685248)"
  by (rule fsqrt_eval [where k = "- 51" and m = "5423052085799557"]) (simp_all add: power2_eq_square)

lemma inc_ulow5: "numInc ulow4 (Fin 10) = ulow5"
  by (simp add: numInc_def ulow4_def ulow5_def Let_def fsub_def
      rounding_32 rounding_33 rounding_34 rounding_35 rounding_36 rounding_37 root_14)

lemma rounding_38: "round_double (2589569785738035 / 562949953421312) = Fin (2589569785738035 / 562949953421312)"
  by (rule round_double_exact [where m = "5179139571476070" and k = "- 50"]) simp_all

lemma rounding_39: "round_double (863189928579345 / 1125899906842624) = Fin (863189928579345 / 1125899906842624)"
  by (rule round_double_exact [where m = "6905519428634760" and k = "- 53"]) simp_all

lemma rounding_40: "round_double (9194849239214763 / 1125899906842624) = Fin (2298712309803691 / 281474976710656)"
  by (rule round_double_eval [where k = "- 49" and m = "4597424619607382"]) (simp_all add: nearest_even_def)

lemma rounding_41: "round_double (1078987410724181 / 281474976710656) = Fin (1078987410724181 / 281474976710656)"
  by (rule round_double_exact [where m = "8631899285793448" and k = "- 51"]) simp_all

lemma rounding_42: "round_double (2794113198003054560144905924335 / 158456325028528675187087900672) = Fin (155104440291601 / 8796093022208)"
  by (rule round_double_eval [where k = "- 48" and m = "4963342089331232"]) (simp_all add: nearest_even_def)

lemma rounding_43: "round_double (11493561549018451 / 281474976710656) = Fin (2873390387254613 / 70368744177664)"
  by (rule round_double_eval [where k = "- 47" and m = "5746780774509226"]) (simp_all add: nearest_even_def)

lemma rounding_44: "round_double (2873390387254613 / 351843720888320) = Fin (4597424619607381 / 562949953421312)"
  by (rule round_double_eval [where k = "- 49" and m = "4597424619607381"]) (simp_all add: nearest_even_def)

lemma root_15: "fsqrt (Fin (4597424619607381 / 562949953421312)) = Fin (3217526985413467 / 1125899906842624)"
  by (rule fsqrt_eval [where k = "- 51" and m = "6435053970826934"]) (simp_all add: power2_eq_square)

lemma inc_ulow6: "numInc ulow5 (Fin 12) = ulow6"
  by (simp add: numInc_def ulow5_def ulow6_def Let_def fsub_def
      rounding_38 rounding_39 rounding_40 rounding_41 rounding_42 rounding_43 rounding_44
      root_15)

lemma rounding_45: "round_double (1641937364145493 / 281474976710656) = Fin (1641937364145493 / 281474976710656)"
  by (rule round_double_exact [where m = "6567749456581972" and k = "- 50"]) simp_all

lemma rounding_46: "round_double (1641937364145493 / 1970324836974592) = Fin (7505999378950825 / 9007199254740992)"
  by (rule round_double_eval [where k = "- 53" and m = "7505999378950825"]) (simp_all add: nearest_even_def)

lemma rounding_47: "round_double (81064793292668937 / 9007199254740992) = Fin (5066549580791809 / 562949953421312)"
  by (rule round_double_eval [where k = "- 49" and m = "5066549580791809"]) (simp_all add: nearest_even_def)

lemma rounding_48: "round_double (2814749767106559 / 562949953421312) = Fin (2814749767106559 / 562949953421312)"
  by (rule round_double_exact [where m = "5629499534213118" and k = "- 50"]) simp_all

lemma rounding_49: "round_double (4621642813332083779436110588587 / 158456325028528675187087900672) = Fin (4104843410363731 / 140737488355328)"
  by (rule round_double_eval [where k = "- 48" and m = "8209686820727462"]) (simp_all add: nearest_even_def)

lemma rounding_50: "round_double (9851624184872957 / 140737488355328) = Fin (2462906046218239 / 35184372088832)"
  by (rule round_double_eval [where k = "- 46" and m = "4925812092436478"]) (simp_all add: nearest_even_def)

lemma rounding_51: "round_double (2462906046218239 / 211106232532992) = Fin (6567749456581971 / 562949953421312)"
  by (rule round_double_eval [where k = "- 49" and m = "6567749456581971"]) (simp_all add: nearest_even_def)

lemma root_16: "fsqrt (Fin (6567749456581971 / 562949953421312)) = Fin (7691360608543243 / 2251799813685248)"
  by (rule fsqrt_eval [where k = "- 51" and m = "7691360608543243"]) (simp_all add: power2_eq_square)

lemma inc_ulow7: "numInc ulow6 (Fin 14) = ulow7"
  by (simp add: numInc_def ulow6_def ulow7_def Let_def fsub_def
      rounding_45 rounding_46 rounding_47 rounding_48 rounding_49 rounding_50 rounding_51
      root_16)

lemma rounding_52: "round_double (- (2814749767106561 / 562949953421312)) = Fin (- (2814749767106561 / 562949953421312))"
  by (rule round_double_exact [where m = "- 5629499534213122" and k = "- 50"]) simp_all

lemma rounding_53: "round_double (- (2814749767106561 / 3377699720527872)) = Fin (- (7505999378950829 / 9007199254740992))"
  by (rule round_double_eval [where k = "- 53" and m = "- 7505999378950829"]) (simp_all add: nearest_even_def)

lemma rounding_54: "round_double (88570792671619773 / 9007199254740992) = Fin (1383918635494059 / 140737488355328)"
  by (rule round_double_eval [where k = "- 49" and m = "5535674541976236"]) (simp_all add: nearest_even_def)

lemma rounding_55: "round_double (- (820968682072747 / 140737488355328)) = Fin (- (820968682072747 / 140737488355328))"
  by (rule round_double_exact [where m = "- 6567749456581976" and k = "- 50"]) simp_all

lemma rounding_56: "round_double (2310821406666044939030302993067 / 79228162514264337593543950336) = Fin (8209686820727473 / 281474976710656)"
  by (rule round_double_eval [where k = "- 48" and m = "8209686820727473"]) (simp_all add: nearest_even_def)

lemma rounding_57: "round_double (11493561549018439 / 281474976710656) = Fin (1436695193627305 / 35184372088832)"
  by (rule round_double_eval [where k = "- 47" and m = "5746780774509220"]) (simp_all add: nearest_even_def)

lemma rounding_58: "round_double (287339038725461 / 35184372088832) = Fin (287339038725461 / 35184372088832)"
  by (rule round_double_exact [where m = "4597424619607376" and k = "- 49"]) simp_all

lemma root_17: "fsqrt (Fin (287339038725461 / 35184372088832)) = Fin (6435053970826931 / 2251799813685248)"
  by (rule fsqrt_eval [where k = "- 51" and m = "6435053970826931"]) (simp_all add: power2_eq_square)

lemma udec_0: "numDec ulow7 (Fin 4) = uhigh6"
  by (simp add: numDec_def ulow7_def uhigh6_def Let_def fsub_def
      rounding_52 rounding_53 rounding_54 rounding_55 rounding_56 rounding_57 rounding_58
      root_17)

lemma rounding_59: "round_double (- (539493705362091 / 140737488355328)) = Fin (- (539493705362091 / 140737488355328))"
  by (rule round_double_exact [where m = "- 8631899285793456" and k = "- 51"]) simp_all

lemma rounding_60: "round_double (- (539493705362091 / 703687441776640)) = Fin (- (6905519428634765 / 9007199254740992))"
  by (rule round_double_eval [where k = "- 53" and m = "- 6905519428634765"]) (simp_all add: nearest_even_def)

lemma rounding_61: "round_double (95476312100254541 / 9007199254740992) = Fin (5967269506265909 / 562949953421312)"
  by (rule round_double_eval [where k = "- 49" and m = "5967269506265909"]) (simp_all add: nearest_even_def)

lemma rounding_62: "round_double (- (2589569785738037 / 562949953421312)) = Fin (- (2589569785738037 / 562949953421312))"
  by (rule round_double_exact [where m = "- 5179139571476074" and k = "- 50"]) simp_all

lemma rounding_63: "round_double (1397056599001529653844756555367 / 79228162514264337593543950336) = Fin (4963342089331241 / 281474976710656)"
  by (rule round_double_eval [where k = "- 48" and m = "4963342089331241"]) (simp_all add: nearest_even_def)

lemma rounding_64: "round_double (6530219459687199 / 281474976710656) = Fin (6530219459687199 / 281474976710656)"
  by (rule round_double_exact [where m = "6530219459687199" and k = "- 48"]) simp_all

lemma rounding_65: "round_double (6530219459687199 / 1125899906842624) = Fin (6530219459687199 / 1125899906842624)"
  by (rule round_double_exact [where m = "6530219459687199" and k = "- 50"]) simp_all

lemma root_18: "fsqrt (Fin (6530219459687199 / 1125899906842624)) = Fin (1355763021449887 / 562949953421312)"
  by (rule fsqrt_eval [where k = "- 51" and m = "5423052085799548"]) (simp_all add: power2_eq_square)

lemma udec_1: "numDec uhigh6 (Fin 6) = uhigh5"
  by (simp add: numDec_def uhigh6_def uhigh5_def Let_def fsub_def
      rounding_59 rounding_60 rounding_61 rounding_62 rounding_63 rounding_64 rounding_65
      root_18)

lemma rounding_66: "round_double (- (1463669878895413 / 562949953421312)) = Fin (- (1463669878895413 / 562949953421312))"
  by (rule round_double_exact [where m = "- 5854679515581652" and k = "- 51"]) simp_all

lemma rounding_67: "round_double (- (1463669878895413 / 2251799813685248)) = Fin (- (1463669878895413 / 2251799813685248))"
  by (rule round_double_exact [where m = "- 5854679515581652" and k = "- 53"]) simp_all

lemma rounding_68: "round_double (25332747903959049 / 2251799813685248) = Fin (3166593487994881 / 281474976710656)"
  by (rule round_double_eval [where k = "- 49" and m = "6333186975989762"]) (simp_all add: nearest_even_def)

lemma rounding_69: "round_double (- (914793674309633 / 281474976710656)) = Fin (- (914793674309633 / 281474976710656))"
  by (rule round_double_exact [where m = "- 7318349394477064" and k = "- 51"]) simp_all

lemma rounding_70: "round_double (1338955946491070415629385413429 / 158456325028528675187087900672) = Fin (4756927106410097 / 562949953421312)"
  by (rule round_double_eval [where k = "- 49" and m = "4756927106410097"]) (simp_all add: nearest_even_def)

lemma rounding_71: "round_double (8303511812964301 / 562949953421312) = Fin (8303511812964301 / 562949953421312)"
  by (rule round_double_exact [where m = "8303511812964301" and k = "- 49"]) simp_all

lemma rounding_72: "round_double (8303511812964301 / 1688849860263936) = Fin (5535674541976201 / 1125899906842624)"
  by (rule round_double_eval [where k = "- 50" and m = "5535674541976201"]) (simp_all add: nearest_even_def)

lemma root_19: "fsqrt (Fin (5535674541976201 / 1125899906842624)) = Fin (1248260334537841 / 562949953421312)"
  by (rule fsqrt_eval [where k = "- 51" and m = "4993041338151364"]) (simp_all add: power2_eq_square)

lemma udec_2: "numDec uhigh5 (Fin 8) = uhigh4"
  by (simp add: numDec_def uhigh5_def uhigh4_def Let_def fsub_def
      rounding_66 rounding_67 rounding_68 rounding_69 rounding_70 rounding_71 rounding_72
      root_19)

lemma rounding_73: "round_double (- (633318697598977 / 281474976710656)) = Fin (- (633318697598977 / 281474976710656))"
  by (rule round_double_exact [where m = "- 5066549580791816" and k = "- 51"]) simp_all

lemma rounding_74: "round_double (- (633318697598977 / 844424930131968)) = Fin (- (6755399441055755 / 9007199254740992))"
  by (rule round_double_eval [where k = "- 53" and m = "- 6755399441055755"]) (simp_all add: nearest_even_def)

lemma rounding_75: "round_double (108086391056891947 / 9007199254740992) = Fin (6755399441055747 / 562949953421312)"
  by (rule round_double_eval [where k = "- 49" and m = "6755399441055747"]) (simp_all add: nearest_even_def)

lemma rounding_76: "round_double (- (1688849860263939 / 562949953421312)) = Fin (- (1688849860263939 / 562949953421312))"
  by (rule round_double_exact [where m = "- 6755399441055756" and k = "- 51"]) simp_all

lemma rounding_77: "round_double (1069580193942572146318796390403 / 158456325028528675187087900672) = Fin (3799912185593869 / 562949953421312)"
  by (rule round_double_eval [where k = "- 50" and m = "7599824371187738"]) (simp_all add: nearest_even_def)

lemma rounding_78: "round_double (70368744177663 / 8796093022208) = Fin (70368744177663 / 8796093022208)"
  by (rule round_double_exact [where m = "9007199254740864" and k = "- 50"]) simp_all

lemma rounding_79: "round_double (70368744177663 / 17592186044416) = Fin (70368744177663 / 17592186044416)"
  by (rule round_double_exact [where m = "9007199254740864" and k = "- 51"]) simp_all

lemma root_20: "fsqrt (Fin (70368744177663 / 17592186044416)) = Fin (140737488355327 / 70368744177664)"
  by (rule fsqrt_eval [where k = "- 52" and m = "9007199254740928"]) (simp_all add: power2_eq_square)

lemma udec_3: "numDec uhigh4 (Fin 9) = uhigh3"
  by (simp add: numDec_def uhigh4_def uhigh3_def Let_def fsub_def
      rounding_73 rounding_74 rounding_75 rounding_76 rounding_77 rounding_78 rounding_79
      root_20)

lemma rounding_80: "round_double (- (1125899906842627 / 562949953421312)) = Fin (- (1125899906842627 / 562949953421312))"
  by (rule round_double_exact [where m = "- 4503599627370508" and k = "- 51"]) simp_all

lemma rounding_81: "round_double (- (1125899906842627 / 1125899906842624)) = Fin (- (1125899906842627 / 1125899906842624))"
  by (rule round_double_exact [where m = "- 4503599627370508" and k = "- 52"]) simp_all

lemma rounding_82: "round_double (14636698788954121 / 1125899906842624) = Fin (1829587348619265 / 140737488355328)"
  by (rule round_double_eval [where k = "- 49" and m = "7318349394477060"]) (simp_all add: nearest_even_def)

lemma rounding_83: "round_double (- (422212465065985 / 140737488355328)) = Fin (- (422212465065985 / 140737488355328))"
  by (rule round_double_exact [where m = "- 6755399441055760" and k = "- 51"]) simp_all

lemma rounding_84: "round_double (475368975085588418098565742595 / 79228162514264337593543950336) = Fin (3377699720527889 / 562949953421312)"
  by (rule round_double_eval [where k = "- 50" and m = "6755399441055778"]) (simp_all add: nearest_even_def)

lemma rounding_85: "round_double (1125899906842543 / 562949953421312) = Fin (1125899906842543 / 562949953421312)"
  by (rule round_double_exact [where m = "9007199254740344" and k = "- 52"]) simp_all

lemma root_21: "fsqrt (Fin (1125899906842543 / 562949953421312)) = Fin (6369051672525543 / 4503599627370496)"
  by (rule fsqrt_eval [where k = "- 52" and m = "6369051672525543"]) (simp_all add: power2_eq_square)

lemma udec_4: "numDec uhigh3 (Fin 10) = uhigh2"
  by (simp add: numDec_def uhigh3_def uhigh2_def Let_def fsub_def
      rounding_80 rounding_81 rounding_82 rounding_83 rounding_84 rounding_85 root_21)

lemma rounding_86: "round_double (- (140737488355329 / 140737488355328)) = Fin (- (140737488355329 / 140737488355328))"
  by (rule round_double_exact [where m = "- 4503599627370528" and k = "- 52"]) simp_all

lemma rounding_87: "round_double (985162418487297 / 70368744177664) = Fin (985162418487297 / 70368744177664)"
  by (rule round_double_exact [where m = "7881299347898376" and k = "- 49"]) simp_all

lemma rounding_88: "round_double (- (140737488355329 / 70368744177664)) = Fin (- (140737488355329 / 70368744177664))"
  by (rule round_double_exact [where m = "- 4503599627370528" and k = "- 51"]) simp_all

lemma rounding_89: "round_double (19807040628566365873362698241 / 9903520314283042199192993792) = Fin (70368744177665 / 35184372088832)"
  by (rule round_double_eval [where k = "- 51" and m = "4503599627370560"]) (simp_all add: nearest_even_def)

lemma rounding_90: "round_double (- (97 / 562949953421312)) = Fin (- (97 / 562949953421312))"
  by (rule round_double_exact [where m = "- 6825768185233408" and k = "- 95"]) simp_all

lemma udec_5: "numDec uhigh2 (Fin 12) = uhigh1"
  by (simp add: numDec_def uhigh2_def uhigh1_def Let_def fsub_def
      rounding_86 rounding_87 rounding_88 rounding_89 rounding_90)

lemma udec_6: "numDec uhigh1 (Fin 14) = uhigh1"
  by (simp add: numDec_def uhigh1_def)

lemma ulow1_fields:
  "count_a ulow1 = 1" "mean ulow1 = Fin 4" "M2 ulow1 = Fin 0" "sd ulow1 = Fin 0" "max_a ulow1 = Fin 4" "min_a ulow1 = Fin 4"
  by (simp_all add: ulow1_def)

lemma ulow2_fields:
  "count_a ulow2 = 2" "mean ulow2 = Fin 5" "M2 ulow2 = Fin 2" "sd ulow2 = Fin (6369051672525773 / 4503599627370496)" "max_a ulow2 = Fin 6" "min_a ulow2 = Fin 4"
  by (simp_all add: ulow2_def)

lemma ulow3_fields:
  "count_a ulow3 = 3" "mean ulow3 = Fin 6" "M2 ulow3 = Fin 8" "sd ulow3 = Fin 2" "max_a ulow3 = Fin 8" "min_a ulow3 = Fin 4"
  by (simp_all add: ulow3_def)

lemma ulow4_fields:
  "count_a ulow4 = 4" "mean ulow4 = Fin (27 / 4)" "M2 ulow4 = Fin (59 / 4)" "sd ulow4 = Fin (4993041338151379 / 2251799813685248)" "max_a ulow4 = Fin 9" "min_a ulow4 = Fin 4"
  by (simp_all add: ulow4_def)

lemma ulow5_fields:
  "count_a ulow5 = 5" "mean ulow5 = Fin (4165829655317709 / 562949953421312)" "M2 ulow5 = Fin (6530219459687219 / 281474976710656)" "sd ulow5 = Fin (5423052085799557 / 2251799813685248)" "max_a ulow5 = Fin 10" "min_a ulow5 = Fin 4"
  by (simp_all add: ulow5_def)

lemma ulow6_fields:
  "count_a ulow6 = 6" "mean ulow6 = Fin (2298712309803691 / 281474976710656)" "M2 ulow6 = Fin (2873390387254613 / 70368744177664)" "sd ulow6 = Fin (3217526985413467 / 1125899906842624)" "max_a ulow6 = Fin 12" "min_a ulow6 = Fin 4"
  by (simp_all add: ulow6_def)

lemma ulow7_fields:
  "count_a ulow7 = 7" "mean ulow7 = Fin (5066549580791809 / 562949953421312)" "M2 ulow7 = Fin (2462906046218239 / 35184372088832)" "sd ulow7 = Fin (7691360608543243 / 2251799813685248)" "max_a ulow7 = Fin 14" "min_a ulow7 = Fin 4"
  by (simp_all add: ulow7_def)

lemma uhigh6_fields:
  "count_a uhigh6 = 6" "mean uhigh6 = Fin (1383918635494059 / 140737488355328)" "M2 uhigh6 = Fin (1436695193627305 / 35184372088832)" "sd uhigh6 = Fin (6435053970826931 / 2251799813685248)" "max_a uhigh6 = Fin 14" "min_a uhigh6 = Fin 4"
  by (simp_all add: uhigh6_def)

lemma uhigh5_fields:
  "count_a uhigh5 = 5" "mean uhigh5 = Fin (5967269506265909 / 562949953421312)" "M2 uhigh5 = Fin (6530219459687199 / 281474976710656)" "sd uhigh5 = Fin (1355763021449887 / 562949953421312)" "max_a uhigh5 = Fin 14" "min_a uhigh5 = Fin 4"
  by (simp_all add: uhigh5_def)

lemma uhigh4_fields:
  "count_a uhigh4 = 4" "mean uhigh4 = Fin (3166593487994881 / 281474976710656)" "M2 uhigh4 = Fin (8303511812964301 / 562949953421312)" "sd uhigh4 = Fin (1248260334537841 / 562949953421312)" "max_a uhigh4 = Fin 14" "min_a uhigh4 = Fin 4"
  by (simp_all add: uhigh4_def)

lemma uhigh3_fields:
  "count_a uhigh3 = 3" "mean uhigh3 = Fin (6755399441055747 / 562949953421312)" "M2 uhigh3 = Fin (70368744177663 / 8796093022208)" "sd uhigh3 = Fin (140737488355327 / 70368744177664)" "max_a uhigh3 = Fin 14" "min_a uhigh3 = Fin 4"
  by (simp_all add: uhigh3_def)

lemma uhigh2_fields:
  "count_a uhigh2 = 2" "mean uhigh2 = Fin (1829587348619265 / 140737488355328)" "M2 uhigh2 = Fin (1125899906842543 / 562949953421312)" "sd uhigh2 = Fin (6369051672525543 / 4503599627370496)" "max_a uhigh2 = Fin 14" "min_a uhigh2 = Fin 4"
  by (simp_all add: uhigh2_def)

lemma uhigh1_fields:
  "count_a uhigh1 = 1" "mean uhigh1 = Fin (985162418487297 / 70368744177664)" "M2 uhigh1 = Fin (- (97 / 562949953421312))" "sd uhigh1 = Fin (6369051672525543 / 4503599627370496)" "max_a uhigh1 = Fin 14" "min_a uhigh1 = Fin 4"
  by (simp_all add: uhigh1_def)

lemma getStdDev_7: "getStdDev [Fin 4, Fin 6, Fin 8, Fin 9, Fin 10, Fin 12, Fin 14] 0 7 = ulow7"
  by (simp add: getStdDev_def upt_7 inc_ulow1 inc_ulow2 inc_ulow3 inc_ulow4 inc_ulow5 inc_ulow6 inc_ulow7)

lemma rounding_91: "round_double (41566570524728951095559716321585 / 40564819207303340847894502572032) = Fin (2307408182562973 / 2251799813685248)"
  by (rule round_double_eval [where k = "- 52" and m = "4614816365125946"]) (simp_all add: nearest_even_def)

lemma minRise_7: "fmul COHEN (sd ulow7) = Fin (2307408182562973 / 2251799813685248)"
  by (simp add: COHEN_eq ulow7_fields rounding_91)

lemma g7_fields:
  "rows g7 = rows7" "numRows g7 = 7" "lastCol g7 = [Fin 4, Fin 6, Fin 8, Fin 9, Fin 10, Fin 12, Fin 14]" "minBinSize g7 = 2" "minRise g7 = Fin (2307408182562973 / 2251799813685248)"
  by (simp_all add: g7_def)

lemma initValues_7: "initValues rows7 = Inr g7"
proof -
  have n: "Suc (Suc (Suc (Suc (Suc (Suc (Suc 0)))))) = (7::nat)" by simp
  have "getStdDev [Fin 4, Fin 6, Fin 8, Fin 9, Fin 10, Fin 12, Fin 14] 0 (Suc (Suc (Suc (Suc (Suc (Suc (Suc 0))))))) = ulow7"
    unfolding n by (rule getStdDev_7)
  then show ?thesis
    by (simp add: initValues_def rows7_def g7_def Let_def floor_sqrt_7 minRise_7)
qed

lemma start_7: "argmin_start g7 0 = uscan0"
  by (simp add: argmin_start_def g7_fields getStdDev_7 getStdDev_00 uscan0_def Let_def ulow7_fields)

lemma ustep_0: "argmin_step g7 uscan0 0 = uscan1"
  by (simp add: argmin_step_def uscan0_def uscan1_def g7_fields Let_def inc_ulow1 udec_0
      ulow1_fields uhigh6_fields fsub_def)

lemma rounding_92: "round_double (353432299802720766469289661807 / 158456325028528675187087900672) = Fin (5022575064156183 / 2251799813685248)"
  by (rule round_double_eval [where k = "- 51" and m = "5022575064156183"]) (simp_all add: nearest_even_def)

lemma rounding_93: "round_double (516516212761496929069 / 73786976294838206464) = Fin (1970352984472263 / 281474976710656)"
  by (rule round_double_eval [where k = "- 50" and m = "7881411937889052"]) (simp_all add: nearest_even_def)

lemma rounding_94: "round_double (562949953421312 / 1970352984472263) = Fin (643362184450293 / 2251799813685248)"
  by (rule round_double_eval [where k = "- 54" and m = "5146897475602344"]) (simp_all add: nearest_even_def)

lemma rounding_95: "round_double (4097606996912973498344879901489 / 10141204801825835211973625643008) = Fin (7278812214140681 / 18014398509481984)"
  by (rule round_double_eval [where k = "- 54" and m = "7278812214140681"]) (simp_all add: nearest_even_def)

lemma rounding_96: "round_double (1407374883553280 / 1970352984472263) = Fin (3216810922251465 / 4503599627370496)"
  by (rule round_double_eval [where k = "- 53" and m = "6433621844502930"]) (simp_all add: nearest_even_def)

lemma rounding_97: "round_double (4361233295384643725454709834455 / 2535301200456458802993406410752) = Fin (7747106592476605 / 4503599627370496)"
  by (rule round_double_eval [where k = "- 52" and m = "7747106592476605"]) (simp_all add: nearest_even_def)

lemma rounding_98: "round_double (38267238584047101 / 18014398509481984) = Fin (74740700359467 / 35184372088832)"
  by (rule round_double_eval [where k = "- 51" and m = "4783404823005888"]) (simp_all add: nearest_even_def)

lemma ugtv_at_1: "getTotalVariance ulow2 uhigh5 = Fin (74740700359467 / 35184372088832)"
  by (simp add: getTotalVariance_def Let_def ulow2_fields uhigh5_fields round_c0001
      rounding_93 rounding_94 rounding_95 rounding_96 rounding_97 rounding_98)

lemma ustep_1: "argmin_step g7 uscan1 (Suc 0) = uscan2"
  by (simp add: argmin_step_def uscan1_def uscan2_def g7_fields Let_def inc_ulow2 udec_1
      ulow2_fields uhigh5_fields fsub_def ugtv_at_1 round_c105
      rounding_92)

lemma rounding_99: "round_double (11309378331257225799644817865409 / 5070602400912917605986812821504) = Fin (5022372887023441 / 2251799813685248)"
  by (rule round_double_eval [where k = "- 51" and m = "5022372887023441"]) (simp_all add: nearest_even_def)

lemma rounding_100: "round_double (281474976710656 / 656784328157421) = Fin (1930086553350879 / 4503599627370496)"
  by (rule round_double_eval [where k = "- 54" and m = "7720346213403516"]) (simp_all add: nearest_even_def)

lemma rounding_101: "round_double (1930086553350879 / 2251799813685248) = Fin (1930086553350879 / 2251799813685248)"
  by (rule round_double_exact [where m = "7720346213403516" and k = "- 53"]) simp_all

lemma rounding_102: "round_double (1125899906842624 / 1970352984472263) = Fin (643362184450293 / 1125899906842624)"
  by (rule round_double_eval [where k = "- 53" and m = "5146897475602344"]) (simp_all add: nearest_even_def)

lemma rounding_103: "round_double (803083495590918907224792037413 / 633825300114114700748351602688) = Fin (5706251440009559 / 4503599627370496)"
  by (rule round_double_eval [where k = "- 52" and m = "5706251440009559"]) (simp_all add: nearest_even_def)

lemma rounding_104: "round_double (9566424546711317 / 4503599627370496) = Fin (2391606136677829 / 1125899906842624)"
  by (rule round_double_eval [where k = "- 51" and m = "4783212273355658"]) (simp_all add: nearest_even_def)

lemma ugtv_at_2: "getTotalVariance ulow3 uhigh4 = Fin (2391606136677829 / 1125899906842624)"
  by (simp add: getTotalVariance_def Let_def ulow3_fields uhigh4_fields round_c0001
      rounding_93 rounding_100 rounding_101 rounding_102 rounding_103 rounding_104)

lemma ustep_2: "argmin_step g7 uscan2 2 = uscan3"
  by (simp add: argmin_step_def uscan2_def uscan3_def g7_fields Let_def inc_ulow3 udec_2
      ulow3_fields uhigh4_fields fsub_def ugtv_at_2 round_c105
      rounding_99)

lemma rounding_105: "round_double (22618756662514427955391592035713 / 10141204801825835211973625643008) = Fin (1255593221755859 / 562949953421312)"
  by (rule round_double_eval [where k = "- 51" and m = "5022372887023436"]) (simp_all add: nearest_even_def)

lemma rounding_106: "round_double (3212333982363685279331934904047 / 2535301200456458802993406410752) = Fin (713281430001197 / 562949953421312)"
  by (rule round_double_eval [where k = "- 52" and m = "5706251440009576"]) (simp_all add: nearest_even_def)

lemma rounding_107: "round_double (271635533826992557794459782433 / 316912650057057350374175801344) = Fin (7720346213403461 / 9007199254740992)"
  by (rule round_double_eval [where k = "- 53" and m = "7720346213403461"]) (simp_all add: nearest_even_def)

lemma rounding_108: "round_double (19132849093422613 / 9007199254740992) = Fin (4783212273355653 / 2251799813685248)"
  by (rule round_double_eval [where k = "- 51" and m = "4783212273355653"]) (simp_all add: nearest_even_def)

lemma ugtv_at_3: "getTotalVariance ulow4 uhigh3 = Fin (4783212273355653 / 2251799813685248)"
  by (simp add: getTotalVariance_def Let_def ulow4_fields uhigh3_fields round_c0001
      rounding_93 rounding_102 rounding_106 rounding_100 rounding_107 rounding_108)

lemma ustep_3: "argmin_step g7 uscan3 3 = uscan4"
  by (simp add: argmin_step_def uscan3_def uscan4_def g7_fields Let_def inc_ulow4 udec_3
      ulow4_fields uhigh3_fields fsub_def ugtv_at_3 round_c105
      rounding_105)

lemma rounding_109: "round_double (22619667187374001376985102402081 / 10141204801825835211973625643008) = Fin (2511287532078077 / 1125899906842624)"
  by (rule round_double_eval [where k = "- 51" and m = "5022575064156154"]) (simp_all add: nearest_even_def)

lemma rounding_110: "round_double (17444933181538603853117139601005 / 10141204801825835211973625643008) = Fin (3873553296238309 / 2251799813685248)"
  by (rule round_double_eval [where k = "- 52" and m = "7747106592476618"]) (simp_all add: nearest_even_def)

lemma rounding_111: "round_double (4097606996912825525042456334099 / 10141204801825835211973625643008) = Fin (7278812214140419 / 18014398509481984)"
  by (rule round_double_eval [where k = "- 54" and m = "7278812214140419"]) (simp_all add: nearest_even_def)

lemma rounding_112: "round_double (38267238584046891 / 18014398509481984) = Fin (4783404823005861 / 2251799813685248)"
  by (rule round_double_eval [where k = "- 51" and m = "4783404823005861"]) (simp_all add: nearest_even_def)

lemma ugtv_at_4: "getTotalVariance ulow5 uhigh2 = Fin (4783404823005861 / 2251799813685248)"
  by (simp add: getTotalVariance_def Let_def ulow5_fields uhigh2_fields round_c0001
      rounding_93 rounding_96 rounding_110 rounding_94 rounding_111 rounding_112)

lemma ustep_4: "argmin_step g7 uscan4 4 = uscan5"
  by (simp add: argmin_step_def uscan4_def uscan5_def g7_fields Let_def inc_ulow5 udec_4
      ulow5_fields uhigh2_fields fsub_def ugtv_at_4 round_c105
      rounding_109)

lemma ustep_5: "argmin_step g7 uscan5 5 = uscan6"
  by (simp add: argmin_step_def uscan5_def uscan6_def g7_fields Let_def inc_ulow6 udec_5
      ulow6_fields uhigh1_fields fsub_def)

lemma ustep_6: "argmin_step g7 uscan6 6 = uscan7"
  by (simp add: argmin_step_def uscan6_def uscan7_def g7_fields Let_def inc_ulow7 udec_6
      ulow7_fields uhigh1_fields fsub_def)

lemma argmin_7: "argmin g7 0 7 = Some 4"
proof -
  have "foldl (argmin_step g7) (argmin_start g7 0) [0..<7] = uscan7"
    by (simp add: upt_7 start_7 ustep_0 ustep_1 ustep_2 ustep_3 ustep_4 ustep_5 ustep_6)
  then show ?thesis by (simp add: argmin_def uscan7_def g7_fields)
qed

text \<open>
  On the rows 4, 6, 8, 9, 10, 12, 14 the splits at the indices 2 and 3 have the same
  cost in exact arithmetic. As doubles the cost at index 3 comes out smaller in its
  last digits, so the scan records index 3 after index 2 and returns 4.
\<close>

lemma argmin_rows7_later_split: "argmin g7 0 7 = Some 4 \<and> cut uscan3 = Some 2 \<and> cut uscan4 = Some 3"
  using argmin_7 by (simp add: uscan3_def uscan4_def)

section \<open>Properties of Pipe3.ts\<close>

subsection \<open>Evaluation on concrete tables\<close>

lemma dataSet_tbl5:
  "dataSet [''dom'', ''cut''] [[''10'', ''2''], [''20'', ''2''], [''30'', ''5''], [''40'', ''5''], [''50'', ''5'']] = Inr tbl5"
  by (simp add: dataSet_def tbl5_def)

lemma Number_dec_vals:
  "Number_dec ''2'' = Some 2" "Number_dec ''5'' = Some 5" "Number_dec ''-1'' = Some (- 1)"
  "Number_dec ''0'' = Some 0" "Number_dec ''4'' = Some 4" "Number_dec ''NaN'' = None"
  by (simp_all add: Number_dec_def digit_of_def)

lemma mark_loop_done: "high < i \<Longrightarrow> mark_loop t b i high = Inr t"
  by (subst mark_loop.simps) simp

lemma mark_loop_step:
  "i \<le> high \<Longrightarrow> js_index (data t) i = Some r \<Longrightarrow>
   mark_loop t b i high = mark_loop (t\<lparr>data := (data t)[nat i := js_set r (cols t) b]\<rparr>) b (i + 1) high"
  by (subst mark_loop.simps) simp

lemma mark5_rest:
  "mark \<lparr>tab = tbl5, stdout = [], stderr = e\<rparr> 1 2 =
     Inr \<lparr>tab = tbl5\<lparr>data := [[''10'', ''2''], [''20'', ''..30''], [''30'', ''..30''],
                                 [''40'', ''5''], [''50'', ''5'']]\<rparr>,
          stdout = [''band\<newline>''], stderr = e\<rparr>"
  by (simp add: mark_def band_def tbl5_def js_index_def js_str_def js_set_def Let_def
        mark_loop_step mark_loop_done)

lemma mark5_best:
  "mark \<lparr>tab = tbl5\<lparr>data := [[''10'', ''2''], [''20'', ''..30''], [''30'', ''..30''],
                                 [''40'', ''5''], [''50'', ''5'']]\<rparr>,
          stdout = [''band\<newline>''], stderr = e\<rparr> 3 4 =
     Inr \<lparr>tab = tbl5_marked, stdout = [''band\<newline>'', ''band\<newline>''], stderr = e\<rparr>"
  by (simp add: mark_def band_def tbl5_def tbl5_marked_def js_index_def js_str_def js_set_def Let_def
        mark_loop_step mark_loop_done)

text \<open>
  Claim C4 fails on the table whose rows hold 10, 20, 30, 40, 50 with the cut values
  2, 2, 5, 5, 5 that \<^verbatim>\<open>argmin.ts\<close> prints for the partitions of rows 0 to 1 and 2 to 4.
  \<^verbatim>\<open>cuts\<close> goes from row 0 to row 3 and stops there; \<^verbatim>\<open>mark(input, 1, 2)\<close> labels
  rows 1 and 2 with \<^verbatim>\<open>..30\<close> and \<^verbatim>\<open>mark(input, 3, 4)\<close> labels rows 3 and 4, the last
  partition, with \<^verbatim>\<open>40..50\<close> and not with \<^verbatim>\<open>40..\<close>. Row 0, the first index, gets no
  label.
\<close>

theorem band_last_partition_closed:
  "dataSet [''dom'', ''cut''] [[''10'', ''2''], [''20'', ''2''], [''30'', ''5''], [''40'', ''5''], [''50'', ''5'']] = Inr tbl5 \<and>
   cuts Number_dec 2 world5 0 4 ''|.. '' =
     Some (Inr \<lparr>tab = tbl5_marked, stdout = [''band\<newline>'', ''band\<newline>''],
                stderr = [''|.. 10\<newline>'', ''|.. |..40\<newline>'']\<rparr>) \<and>
   data tbl5_marked = [[''10'', ''2''], [''20'', ''..30''], [''30'', ''..30''],
                       [''40'', ''40..50''], [''50'', ''40..50'']]"
proof -
  have n0: "next_low Number_dec tbl5 [''10'', ''2''] 0 4 = Some 3"
    by (simp add: next_low_def tbl5_def to_number_def js_index_def Number_dec_vals)
  have n3: "next_low Number_dec tbl5 [''40'', ''5''] 3 4 = None"
    by (simp add: next_low_def tbl5_def)
  have r0: "js_index_num (data tbl5) 0 = Some [''10'', ''2'']"
    and r3: "js_index_num (data tbl5) 3 = Some [''40'', ''5'']"
    by (simp_all add: js_index_num_def js_index_def tbl5_def)
  have c: "c_t tbl5 = 0" by (simp add: tbl5_def)
  have "cuts Number_dec (Suc (Suc 0)) world5 0 4 ''|.. '' =
     Some (Inr \<lparr>tab = tbl5_marked, stdout = [''band\<newline>'', ''band\<newline>''],
                stderr = [''|.. 10\<newline>'', ''|.. |..40\<newline>'']\<rparr>)"
    by (simp add: world5_def r0 r3 n0 n3 c js_index_def js_str_def Let_def marks_def mark5_rest mark5_best)
  then show ?thesis by (simp add: dataSet_tbl5 tbl5_marked_def numeral_2_eq_2)
qed

subsection \<open>What the loop of mark writes\<close>

text \<open>
  When the rows from \<^verbatim>\<open>low\<close> to \<^verbatim>\<open>high\<close> exist, the loop returns normally, stores
  the label in column \<^verbatim>\<open>cols\<close> of each of them and leaves every other row as it was.
\<close>

lemma js_set_reads_back: "js_index (js_set row k v) (int k) = Some v"
  by (simp add: js_set_def js_index_def nth_append)

lemma mark_loop_writes:
  assumes "0 \<le> low" and "high < int (length (data t))"
  shows "\<exists>t'. mark_loop t b low high = Inr t' \<and>
           length (data t') = length (data t) \<and>
           (\<forall>i < length (data t).
              data t' ! i = (if low \<le> int i \<and> int i \<le> high
                             then js_set (data t ! i) (cols t) b else data t ! i))"
  using assms
proof (induction t b low high rule: mark_loop.induct)
  case (1 t b i high)
  show ?case
  proof (cases "i \<le> high")
    case False
    then have "mark_loop t b i high = Inr t" by (subst mark_loop.simps) simp
    then show ?thesis using False by auto
  next
    case True
    then have ir: "js_index (data t) i = Some (data t ! nat i)"
      using "1.prems" by (simp add: js_index_def)
    let ?t = "t\<lparr>data := (data t)[nat i := js_set (data t ! nat i) (cols t) b]\<rparr>"
    have e: "mark_loop t b i high = mark_loop ?t b (i + 1) high"
      using True ir by (subst mark_loop.simps) simp
    have "\<exists>t'. mark_loop ?t b (i + 1) high = Inr t' \<and>
           length (data t') = length (data ?t) \<and>
           (\<forall>k < length (data ?t).
              data t' ! k = (if i + 1 \<le> int k \<and> int k \<le> high
                             then js_set (data ?t ! k) (cols ?t) b else data ?t ! k))"
      using "1.IH" [OF True ir] "1.prems" by simp
    then obtain t' where t': "mark_loop ?t b (i + 1) high = Inr t'"
      "length (data t') = length (data t)"
      "\<And>k. k < length (data t) \<Longrightarrow>
         data t' ! k = (if i + 1 \<le> int k \<and> int k \<le> high
                        then js_set (data ?t ! k) (cols t) b else data ?t ! k)"
      by auto
    have "\<forall>k < length (data t).
              data t' ! k = (if i \<le> int k \<and> int k \<le> high
                             then js_set (data t ! k) (cols t) b else data t ! k)"
    proof (intro allI impI)
      fix k assume k: "k < length (data t)"
      show "data t' ! k = (if i \<le> int k \<and> int k \<le> high
                             then js_set (data t ! k) (cols t) b else data t ! k)"
      proof (cases "int k = i")
        case True
        then have "nat i = k" by simp
        then show ?thesis using t'(3) [OF k] k True \<open>i \<le> high\<close> by simp
      next
        case False
        then have "nat i \<noteq> k" using "1.prems"(1) by auto
        then show ?thesis using t'(3) [OF k] False by auto
      qed
    qed
    then show ?thesis using e t'(1,2) by simp
  qed
qed

subsection \<open>Termination of the recursion\<close>












section \<open>Properties of the sorts\<close>

subsection \<open>Merge sort\<close>

lemma set_merge: "set (merge xs ys) = set xs \<union> set ys"
  by (induction xs ys rule: merge.induct) auto

lemma sorted_merge: "sorted_asc xs \<Longrightarrow> sorted_asc ys \<Longrightarrow> sorted_asc (merge xs ys)"
  unfolding sorted_asc_def
  by (induction xs ys rule: merge.induct) (auto simp: set_merge)

lemma filter_merge:
  "sorted_asc xs \<Longrightarrow> filter (\<lambda>r. key r = k) (merge xs ys) = filter (\<lambda>r. key r = k) xs @ filter (\<lambda>r. key r = k) ys"
proof (induction xs ys rule: merge.induct)
  case (1 l left r right)
  show ?case
  proof (cases "key l \<le> key r")
    case True
    then show ?thesis using 1 by (simp add: sorted_asc_def)
  next
    case False
    have "filter (\<lambda>r. key r = k) (l # left) = []" if "key r = k"
    proof -
      have "\<forall>x \<in> set (l # left). key l \<le> key x"
        using "1.prems" by (auto simp: sorted_asc_def)
      then have "\<forall>x \<in> set (l # left). key x \<noteq> k" using False that by auto
      then show ?thesis by (simp add: filter_empty_conv)
    qed
    then show ?thesis using False 1 by auto
  qed
qed simp_all

lemma mergeSort_correct: "sorted_asc (mergeSort vals) \<and> stable vals (mergeSort vals)"
proof (induction vals rule: mergeSort.induct)
  case (1 vals)
  show ?case
  proof (cases "length vals < 2")
    case True
    then have s: "mergeSort vals = vals" by (subst mergeSort.simps) simp
    have "sorted_asc vals" using True
      by (cases vals) (auto simp: sorted_asc_def dest: length_0_conv [THEN iffD1])
    then show ?thesis by (simp add: s stable_def)
  next
    case False
    let ?l = "take (length vals div 2) vals" and ?r = "drop (length vals div 2) vals"
    have s: "mergeSort vals = merge (mergeSort ?l) (mergeSort ?r)"
      using False by (subst mergeSort.simps) simp
    have il: "sorted_asc (mergeSort ?l)" "stable ?l (mergeSort ?l)"
      and ir: "sorted_asc (mergeSort ?r)" "stable ?r (mergeSort ?r)"
      using 1 False by simp_all
    have "filter (\<lambda>r. key r = k) (mergeSort vals) = filter (\<lambda>r. key r = k) vals" for k
    proof -
      have "filter (\<lambda>r. key r = k) (mergeSort vals)
          = filter (\<lambda>r. key r = k) ?l @ filter (\<lambda>r. key r = k) ?r"
        using il ir by (simp add: s filter_merge stable_def)
      also have "\<dots> = filter (\<lambda>r. key r = k) (?l @ ?r)" by (simp only: filter_append)
      finally show ?thesis by simp
    qed
    then show ?thesis using il ir by (simp add: s sorted_merge stable_def)
  qed
qed

subsection \<open>Bubble sort\<close>

lemma swap_adjacent:
  "j + 1 < length xs \<Longrightarrow>
   xs[j := xs ! (j + 1), j + 1 := xs ! j] = take j xs @ [xs ! (j + 1), xs ! j] @ drop (j + 2) xs"
proof (induction xs arbitrary: j)
  case Nil
  then show ?case by simp
next
  case (Cons x xs)
  show ?case
  proof (cases j)
    case 0
    then show ?thesis using Cons.prems by (cases xs) simp_all
  next
    case (Suc j')
    then show ?thesis using Cons.prems Cons.IH [of j'] by simp
  qed
qed

lemma split_adjacent:
  "j + 1 < length xs \<Longrightarrow> xs = take j xs @ [xs ! j, xs ! (j + 1)] @ drop (j + 2) xs"
proof (induction xs arbitrary: j)
  case Nil
  then show ?case by simp
next
  case (Cons x xs)
  show ?case
  proof (cases j)
    case 0
    then show ?thesis using Cons.prems by (cases xs) simp_all
  next
    case (Suc j')
    then show ?thesis using Cons.prems Cons.IH [of j'] by simp
  qed
qed

lemma filter_swap_adjacent:
  assumes "Suc j < length xs" and "key (xs ! j) \<noteq> key (xs ! Suc j)"
  shows "filter (\<lambda>r. key r = k) (xs[j := xs ! Suc j, Suc j := xs ! j]) = filter (\<lambda>r. key r = k) xs"
proof -
  let ?P = "\<lambda>r. key r = k"
  let ?a = "take j xs" and ?d = "drop (j + 2) xs"
  have len: "j + 1 < length xs" using assms(1) by simp
  have L: "xs[j := xs ! Suc j, Suc j := xs ! j] = ?a @ [xs ! Suc j, xs ! j] @ ?d"
    using swap_adjacent [OF len] by simp
  have R: "?a @ [xs ! j, xs ! Suc j] @ ?d = xs"
    using split_adjacent [OF len] by simp
  have h: "filter ?P [xs ! Suc j, xs ! j] = filter ?P [xs ! j, xs ! Suc j]"
    using assms(2) by auto
  have "filter ?P (xs[j := xs ! Suc j, Suc j := xs ! j]) = filter ?P (?a @ [xs ! Suc j, xs ! j] @ ?d)"
    by (simp only: L)
  also have "\<dots> = filter ?P ?a @ filter ?P [xs ! Suc j, xs ! j] @ filter ?P ?d"
    by (simp only: filter_append)
  also have "\<dots> = filter ?P ?a @ filter ?P [xs ! j, xs ! Suc j] @ filter ?P ?d"
    by (simp only: h)
  also have "\<dots> = filter ?P (?a @ [xs ! j, xs ! Suc j] @ ?d)"
    by (simp only: filter_append)
  also have "\<dots> = filter ?P xs"
    by (rule arg_cong [where f = "filter ?P", OF R])
  finally show ?thesis .
qed

lemma bubble_inner_unfold:
  "bubble_inner vals n i j =
     (if j + i + 1 < n then bubble_inner (bubble_step vals j) n i (j + 1) else vals)"
  by (subst bubble_inner.simps) (simp add: bubble_step_def)

lemma bubble_step_length: "length (bubble_step vals j) = length vals"
  by (simp add: bubble_step_def)

lemma bubble_step_mset: "j + 1 < length vals \<Longrightarrow> mset (bubble_step vals j) = mset vals"
  by (simp add: bubble_step_def mset_swap)

lemma bubble_step_filter:
  "j + 1 < length vals \<Longrightarrow>
   filter (\<lambda>r. key r = k) (bubble_step vals j) = filter (\<lambda>r. key r = k) vals"
  by (simp add: bubble_step_def filter_swap_adjacent)

lemma bubble_step_drop: "j + 1 < m \<Longrightarrow> drop m (bubble_step vals j) = drop m vals"
  by (simp add: bubble_step_def)

lemma bubble_step_top:
  assumes "j + 1 < length vals" and "\<forall>p \<le> j. key (vals ! p) \<le> key (vals ! j)"
  shows "\<forall>p \<le> j + 1. key (bubble_step vals j ! p) \<le> key (bubble_step vals j ! (j + 1))"
proof (intro allI impI)
  fix p assume p: "p \<le> j + 1"
  show "key (bubble_step vals j ! p) \<le> key (bubble_step vals j ! (j + 1))"
  proof (cases "key (vals ! j) > key (vals ! (j + 1))")
    case True
    then have s: "bubble_step vals j = vals[j := vals ! (j + 1), j + 1 := vals ! j]"
      by (simp add: bubble_step_def)
    have top: "bubble_step vals j ! (j + 1) = vals ! j" using assms(1) by (simp add: s)
    show ?thesis
    proof (cases "p = j + 1")
      case True
      then show ?thesis by simp
    next
      case False
      then have pj: "p \<le> j" using p by simp
      show ?thesis
      proof (cases "p = j")
        case True
        then have "bubble_step vals j ! p = vals ! (j + 1)" using assms(1) by (simp add: s)
        then show ?thesis using top \<open>key (vals ! j) > key (vals ! (j + 1))\<close> by simp
      next
        case False
        then have "bubble_step vals j ! p = vals ! p" using pj assms(1) by (simp add: s)
        then show ?thesis using top assms(2) pj by simp
      qed
    qed
  next
    case False
    then have s: "bubble_step vals j = vals" by (simp add: bubble_step_def)
    show ?thesis
    proof (cases "p = j + 1")
      case True
      then show ?thesis by simp
    next
      case False
      then have "p \<le> j" using p by simp
      then have "key (vals ! p) \<le> key (vals ! j)" using assms(2) by simp
      then show ?thesis using \<open>\<not> key (vals ! j) > key (vals ! (j + 1))\<close> by (simp add: s)
    qed
  qed
qed

lemma bubble_inner_props:
  assumes "n = length vals" and "\<forall>p \<le> j. key (vals ! p) \<le> key (vals ! j)" and "j + i + 1 \<le> n"
  shows "length (bubble_inner vals n i j) = n \<and>
         mset (bubble_inner vals n i j) = mset vals \<and>
         (\<forall>k. filter (\<lambda>r. key r = k) (bubble_inner vals n i j) = filter (\<lambda>r. key r = k) vals) \<and>
         drop (n - i) (bubble_inner vals n i j) = drop (n - i) vals \<and>
         (\<forall>p \<le> n - i - 1. key (bubble_inner vals n i j ! p) \<le> key (bubble_inner vals n i j ! (n - i - 1)))"
  using assms
proof (induction vals n i j rule: bubble_inner.induct)
  case (1 vals n i j)
  show ?case
  proof (cases "j + i + 1 < n")
    case False
    then have e: "bubble_inner vals n i j = vals" by (subst bubble_inner_unfold) simp
    have "n - i - 1 = j" using False "1.prems"(3) by simp
    then show ?thesis unfolding e using "1.prems" by simp
  next
    case True
    let ?v = "bubble_step vals j"
    have e: "bubble_inner vals n i j = bubble_inner ?v n i (j + 1)"
      using True by (subst bubble_inner_unfold) simp
    have jl: "j + 1 < length vals" using True "1.prems"(1) by simp
    have ih: "length (bubble_inner ?v n i (j + 1)) = n \<and>
         mset (bubble_inner ?v n i (j + 1)) = mset ?v \<and>
         (\<forall>k. filter (\<lambda>r. key r = k) (bubble_inner ?v n i (j + 1)) = filter (\<lambda>r. key r = k) ?v) \<and>
         drop (n - i) (bubble_inner ?v n i (j + 1)) = drop (n - i) ?v \<and>
         (\<forall>p \<le> n - i - 1. key (bubble_inner ?v n i (j + 1) ! p) \<le> key (bubble_inner ?v n i (j + 1) ! (n - i - 1)))"
    proof (rule "1.IH" [unfolded bubble_step_def [symmetric]])
      show "j + i + 1 < n" by (rule True)
      show "n = length ?v" using "1.prems"(1) by (simp add: bubble_step_length)
      show "\<forall>p \<le> j + 1. key (?v ! p) \<le> key (?v ! (j + 1))"
        by (rule bubble_step_top [OF jl "1.prems"(2)])
      show "j + 1 + i + 1 \<le> n" using True by simp
    qed
    have d: "drop (n - i) ?v = drop (n - i) vals"
      using True by (intro bubble_step_drop) simp
    show ?thesis
      unfolding e using ih by (simp add: bubble_step_mset [OF jl] bubble_step_filter [OF jl] d)
  qed
qed

lemma sorted_asc_nth:
  "sorted_asc vals \<longleftrightarrow> (\<forall>p q. p \<le> q \<and> q < length vals \<longrightarrow> key (vals ! p) \<le> key (vals ! q))"
  unfolding sorted_asc_def sorted_iff_nth_mono by (auto simp: nth_map)

lemma sorted_from_le1: "sorted_from vals b \<Longrightarrow> b \<le> 1 \<Longrightarrow> sorted_asc vals"
  unfolding sorted_asc_nth sorted_from_def
proof (intro allI impI)
  fix p q
  assume h: "(\<forall>p q. b \<le> p \<and> p \<le> q \<and> q < length vals \<longrightarrow> key (vals ! p) \<le> key (vals ! q)) \<and>
     (\<forall>p q. p < b \<and> b \<le> q \<and> q < length vals \<longrightarrow> key (vals ! p) \<le> key (vals ! q))"
    and b: "b \<le> 1" and pq: "p \<le> q \<and> q < length vals"
  show "key (vals ! p) \<le> key (vals ! q)"
  proof (cases "b \<le> p")
    case True
    then show ?thesis using h pq by blast
  next
    case False
    then have p0: "p = 0" "b = 1" using b by simp_all
    show ?thesis
    proof (cases "q = 0")
      case True
      then show ?thesis using p0 by simp
    next
      case False
      then have "p < b \<and> b \<le> q \<and> q < length vals" using p0 pq by simp
      then show ?thesis using h by blast
    qed
  qed
qed

lemma prefix_elems:
  assumes m: "mset res = mset vals" and d: "drop b res = drop b vals" and p: "p < b" "p < length res"
  shows "\<exists>p'. p' < b \<and> p' < length vals \<and> res ! p = vals ! p'"
proof -
  have "mset (take b res) + mset (drop b res) = mset (take b vals) + mset (drop b vals)"
    using m by (metis append_take_drop_id mset_append)
  then have "mset (take b res) = mset (take b vals)" using d by simp
  then have s: "set (take b res) = set (take b vals)" by (rule mset_eq_setD)
  have "res ! p \<in> set (take b res)"
    using p by (metis in_set_conv_nth length_take min_less_iff_conj nth_take)
  then have "res ! p \<in> set (take b vals)" using s by simp
  then obtain k where "k < length (take b vals)" "take b vals ! k = res ! p"
    by (auto simp: in_set_conv_nth)
  then show ?thesis by (intro exI [of _ k]) simp
qed

lemma suffix_elems:
  assumes d: "drop b res = drop b vals" and l: "length res = length vals" and q: "b \<le> q" "q < length vals"
  shows "res ! q = vals ! q"
proof -
  have "drop b res ! (q - b) = drop b vals ! (q - b)" using d by simp
  then show ?thesis using q l by simp
qed

lemma bubble_pass_inv:
  assumes inv: "sorted_from vals (n - i)" and n: "n = length vals" and i: "i + 1 < n"
  shows "sorted_from (bubble_inner vals n i 0) (n - (i + 1))"
proof -
  let ?res = "bubble_inner vals n i 0"
  let ?b = "n - i" and ?m = "n - (i + 1)"
  have props: "length ?res = n" "mset ?res = mset vals" "drop ?b ?res = drop ?b vals"
    "\<forall>p \<le> n - i - 1. key (?res ! p) \<le> key (?res ! (n - i - 1))"
    using bubble_inner_props [of n vals 0 i] n i by simp_all
  have bm: "?b = ?m + 1" using i by simp
  have old1: "\<And>p q. ?b \<le> p \<Longrightarrow> p \<le> q \<Longrightarrow> q < n \<Longrightarrow> key (vals ! p) \<le> key (vals ! q)"
    and old2: "\<And>p q. p < ?b \<Longrightarrow> ?b \<le> q \<Longrightarrow> q < n \<Longrightarrow> key (vals ! p) \<le> key (vals ! q)"
    using inv n unfolding sorted_from_def by blast+
  have suf: "\<And>q. ?b \<le> q \<Longrightarrow> q < n \<Longrightarrow> ?res ! q = vals ! q"
    using suffix_elems [OF props(3)] props(1) n by simp
  have pre: "\<And>p q. p < ?b \<Longrightarrow> ?b \<le> q \<Longrightarrow> q < n \<Longrightarrow> key (?res ! p) \<le> key (?res ! q)"
  proof -
    fix p q assume a: "p < ?b" "?b \<le> q" "q < n"
    then have "p < length ?res" using props(1) by simp
    from prefix_elems [OF props(2) props(3) a(1) this]
    obtain p' where "p' < ?b" "?res ! p = vals ! p'" by blast
    then show "key (?res ! p) \<le> key (?res ! q)" using old2 [of p' q] suf [of q] a by simp
  qed
  have top: "\<And>p. p \<le> ?m \<Longrightarrow> key (?res ! p) \<le> key (?res ! ?m)"
    using props(4) by simp
  show ?thesis
    unfolding sorted_from_def props(1) [unfolded n]
  proof (intro conjI allI impI)
    fix p q assume a: "?m \<le> p \<and> p \<le> q \<and> q < length ?res"
    then have qn: "q < n" using props(1) by simp
    show "key (?res ! p) \<le> key (?res ! q)"
    proof (cases "?b \<le> p")
      case True
      then show ?thesis using suf [of p] suf [of q] old1 [of p q] a qn by simp
    next
      case False
      then have pm: "p = ?m" using a bm by simp
      show ?thesis
      proof (cases "q = ?m")
        case True
        then show ?thesis using pm by simp
      next
        case False
        then have "?b \<le> q" using a pm bm by simp
        moreover have "p < ?b" using pm bm by simp
        ultimately show ?thesis using pre qn by simp
      qed
    qed
  next
    fix p q assume a: "p < ?m \<and> ?m \<le> q \<and> q < length ?res"
    then have qn: "q < n" using props(1) by simp
    show "key (?res ! p) \<le> key (?res ! q)"
    proof (cases "q = ?m")
      case True
      then show ?thesis using top [of p] a by simp
    next
      case False
      then have "?b \<le> q" using a bm by simp
      moreover have "p < ?b" using a bm by simp
      ultimately show ?thesis using pre qn by simp
    qed
  qed
qed

lemma bubble_outer_correct:
  assumes "sorted_from vals (n - i)" and "n = length vals"
  shows "sorted_asc (bubble_outer vals n i) \<and> stable vals (bubble_outer vals n i)"
  using assms
proof (induction vals n i rule: bubble_outer.induct)
  case (1 vals n i)
  show ?case
  proof (cases "i + 1 < n")
    case False
    then have e: "bubble_outer vals n i = vals" by (subst bubble_outer.simps) simp
    have "n - i \<le> 1" using False by simp
    then show ?thesis unfolding e using sorted_from_le1 [OF "1.prems"(1)] by (simp add: stable_def)
  next
    case True
    let ?res = "bubble_inner vals n i 0"
    have e: "bubble_outer vals n i = bubble_outer ?res n (i + 1)"
      using True by (subst bubble_outer.simps) simp
    have props: "length ?res = n"
      "\<forall>k. filter (\<lambda>r. key r = k) ?res = filter (\<lambda>r. key r = k) vals"
      using bubble_inner_props [of n vals 0 i] "1.prems"(2) True by simp_all
    have inv: "sorted_from ?res (n - (i + 1))"
      by (rule bubble_pass_inv [OF "1.prems"(1) "1.prems"(2) True])
    have "sorted_asc (bubble_outer ?res n (i + 1)) \<and> stable ?res (bubble_outer ?res n (i + 1))"
      using "1.IH" [OF True inv] props(1) by simp
    then show ?thesis unfolding e using props(2) by (simp add: stable_def)
  qed
qed

lemma bubbleSort_correct: "sorted_asc (bubbleSort vals) \<and> stable vals (bubbleSort vals)"
  unfolding bubbleSort_def
  by (rule bubble_outer_correct) (simp_all add: sorted_from_def)

subsection \<open>Selection sort\<close>

lemma sel_min_props:
  assumes "i \<le> mn" and "mn < j" and "j \<le> n"
    and "\<forall>p. i \<le> p \<and> p < j \<longrightarrow> key (vals ! mn) \<le> key (vals ! p)"
  shows "i \<le> sel_min vals n mn j \<and> sel_min vals n mn j < n \<and>
         (\<forall>p. i \<le> p \<and> p < n \<longrightarrow> key (vals ! sel_min vals n mn j) \<le> key (vals ! p))"
  using assms
proof (induction vals n mn j rule: sel_min.induct)
  case (1 vals n mn j)
  show ?case
  proof (cases "j < n")
    case False
    then have e: "sel_min vals n mn j = mn" by (subst sel_min.simps) simp
    have "j = n" using False "1.prems"(3) by simp
    then show ?thesis unfolding e using "1.prems" by simp
  next
    case True
    let ?mn = "if key (vals ! j) < key (vals ! mn) then j else mn"
    have e: "sel_min vals n mn j = sel_min vals n ?mn (j + 1)"
      using True by (subst sel_min.simps) simp
    have a1: "i \<le> ?mn" using "1.prems"(1,2) by simp
    have a2: "?mn < j + 1" using "1.prems"(2) by simp
    have a3: "j + 1 \<le> n" using True by simp
    have a4: "\<forall>p. i \<le> p \<and> p < j + 1 \<longrightarrow> key (vals ! ?mn) \<le> key (vals ! p)"
    proof (intro allI impI)
      fix p assume p: "i \<le> p \<and> p < j + 1"
      show "key (vals ! ?mn) \<le> key (vals ! p)"
      proof (cases "p = j")
        case True
        then show ?thesis by simp
      next
        case False
        then have "i \<le> p \<and> p < j" using p by simp
        then have "key (vals ! mn) \<le> key (vals ! p)" using "1.prems"(4) by blast
        then show ?thesis by simp
      qed
    qed
    show ?thesis unfolding e by (rule "1.IH" [OF True a1 a2 a3 a4])
  qed
qed

lemma sel_min_from:
  assumes "i + 1 \<le> n"
  shows "i \<le> sel_min vals n i (i + 1) \<and> sel_min vals n i (i + 1) < n \<and>
         (\<forall>p. i \<le> p \<and> p < n \<longrightarrow> key (vals ! sel_min vals n i (i + 1)) \<le> key (vals ! p))"
proof (rule sel_min_props)
  show "i \<le> i" by simp
  show "i < i + 1" by simp
  show "i + 1 \<le> n" by (rule assms)
  show "\<forall>p. i \<le> p \<and> p < i + 1 \<longrightarrow> key (vals ! i) \<le> key (vals ! p)"
  proof (intro allI impI)
    fix p assume "i \<le> p \<and> p < i + 1"
    then have "p = i" by simp
    then show "key (vals ! i) \<le> key (vals ! p)" by simp
  qed
qed

lemma sel_step_inv:
  assumes inv: "sorted_upto vals i" and n: "n = length vals" and i: "i + 1 < n"
    and mn: "mn = sel_min vals n i (i + 1)"
  shows "sorted_upto (vals[mn := vals ! i, i := vals ! mn]) (i + 1)"
proof -
  let ?v = "vals[mn := vals ! i, i := vals ! mn]"
  have m: "i \<le> mn" "mn < n" "\<And>p. i \<le> p \<Longrightarrow> p < n \<Longrightarrow> key (vals ! mn) \<le> key (vals ! p)"
    using sel_min_from [of i n vals] i unfolding mn by auto
  have old1: "\<And>p q. p \<le> q \<Longrightarrow> q < i \<Longrightarrow> key (vals ! p) \<le> key (vals ! q)"
    and old2: "\<And>p q. p < i \<Longrightarrow> i \<le> q \<Longrightarrow> q < n \<Longrightarrow> key (vals ! p) \<le> key (vals ! q)"
    using inv n i unfolding sorted_upto_def by (simp_all add: less_trans)
  have at_i: "?v ! i = vals ! mn" using i n by simp
  have low: "\<And>p. p < i \<Longrightarrow> ?v ! p = vals ! p" using m(1) by simp
  have high: "\<And>q. i < q \<Longrightarrow> q < n \<Longrightarrow> \<exists>q'. i \<le> q' \<and> q' < n \<and> ?v ! q = vals ! q'"
  proof -
    fix q assume q: "i < q" "q < n"
    show "\<exists>q'. i \<le> q' \<and> q' < n \<and> ?v ! q = vals ! q'"
    proof (cases "q = mn")
      case True
      then have "?v ! q = vals ! i" using q n by simp
      then show ?thesis using i by (intro exI [of _ i]) simp
    next
      case False
      then have "?v ! q = vals ! q" using q by simp
      then show ?thesis using q by (intro exI [of _ q]) simp
    qed
  qed
  have len: "length ?v = n" using n by simp
  show ?thesis
    unfolding sorted_upto_def len
  proof (intro conjI allI impI)
    fix p q assume a: "p \<le> q \<and> q < i + 1 \<and> q < n"
    show "key (?v ! p) \<le> key (?v ! q)"
    proof (cases "q < i")
      case True
      then show ?thesis using a low [of p] low [of q] old1 [of p q] by simp
    next
      case False
      then have qi: "q = i" using a by simp
      show ?thesis
      proof (cases "p = i")
        case True
        then show ?thesis using qi by simp
      next
        case False
        then have "p < i" using a qi by simp
        then show ?thesis using low [of p] at_i old2 [of p mn] m qi by simp
      qed
    qed
  next
    fix p q assume a: "p < i + 1 \<and> i + 1 \<le> q \<and> q < n"
    then have "i < q" "q < n" by simp_all
    from high [OF this] obtain q' where q': "i \<le> q'" "q' < n" "?v ! q = vals ! q'" by blast
    show "key (?v ! p) \<le> key (?v ! q)"
    proof (cases "p = i")
      case True
      then show ?thesis using at_i q' m(3) [of q'] by simp
    next
      case False
      then have "p < i" using a by simp
      then show ?thesis using low [of p] q' old2 [of p q'] by simp
    qed
  qed
qed

lemma sorted_upto_end: "sorted_upto vals i \<Longrightarrow> length vals \<le> i + 1 \<Longrightarrow> sorted_asc vals"
  unfolding sorted_asc_nth sorted_upto_def
proof (intro allI impI)
  fix p q
  assume h: "(\<forall>p q. p \<le> q \<and> q < i \<and> q < length vals \<longrightarrow> key (vals ! p) \<le> key (vals ! q)) \<and>
     (\<forall>p q. p < i \<and> i \<le> q \<and> q < length vals \<longrightarrow> key (vals ! p) \<le> key (vals ! q))"
    and l: "length vals \<le> i + 1" and pq: "p \<le> q \<and> q < length vals"
  show "key (vals ! p) \<le> key (vals ! q)"
  proof (cases "q < i")
    case True
    then show ?thesis using h pq by blast
  next
    case False
    then have qi: "q = i" using l pq by simp
    show ?thesis
    proof (cases "p = i")
      case True
      then show ?thesis using qi by simp
    next
      case False
      then have "p < i \<and> i \<le> q \<and> q < length vals" using pq qi by simp
      then show ?thesis using h by blast
    qed
  qed
qed

lemma sel_outer_correct:
  assumes "sorted_upto vals i" and "n = length vals"
  shows "sorted_asc (sel_outer vals n i) \<and> mset (sel_outer vals n i) = mset vals"
  using assms
proof (induction vals n i rule: sel_outer.induct)
  case (1 vals n i)
  show ?case
  proof (cases "i + 1 < n")
    case False
    then have e: "sel_outer vals n i = vals" by (subst sel_outer.simps) simp
    have "length vals \<le> i + 1" using False "1.prems"(2) by simp
    then show ?thesis unfolding e using sorted_upto_end [OF "1.prems"(1)] by simp
  next
    case True
    define mn where "mn = sel_min vals n i (i + 1)"
    let ?v = "vals[mn := vals ! i, i := vals ! mn]"
    have e: "sel_outer vals n i = sel_outer ?v n (i + 1)"
      using True by (subst sel_outer.simps) (simp add: mn_def Let_def)
    have m: "mn < n"
      using sel_min_from [of i n vals] True unfolding mn_def by auto
    have inv: "sorted_upto ?v (i + 1)"
      by (rule sel_step_inv [OF "1.prems"(1) "1.prems"(2) True mn_def])
    have ms: "mset ?v = mset vals"
      using m True "1.prems"(2) by (simp add: mset_swap)
    have "sorted_asc (sel_outer ?v n (i + 1)) \<and> mset (sel_outer ?v n (i + 1)) = mset ?v"
      using "1.IH" [OF True mn_def inv] "1.prems"(2) by simp
    then show ?thesis unfolding e using ms by simp
  qed
qed

lemma selectionSort_correct: "sorted_asc (selectionSort vals) \<and> mset (selectionSort vals) = mset vals"
  unfolding selectionSort_def
  by (rule sel_outer_correct) (simp_all add: sorted_upto_def)

lemma selectionSort_ties: "selectionSort vals_ties = [[3, 1], [2, 2], [1, 2]]"
  by (simp add: selectionSort_def vals_ties_def sel_outer.simps sel_min.simps key_def Let_def)

text \<open>
  The rows \<open>[1, 2]\<close>, \<open>[2, 2]\<close>, \<open>[3, 1]\<close>: the first pass swaps the first and the last
  row, and the two rows with key 2 come out in the opposite order.
\<close>

theorem selectionSort_unstable_counterexample:
  "sorted_asc vals_ties = False \<and>
   selectionSort vals_ties = [[3, 1], [2, 2], [1, 2]] \<and>
   \<not> stable vals_ties (selectionSort vals_ties)"
proof -
  have "filter (\<lambda>r. key r = 2) (selectionSort vals_ties) \<noteq> filter (\<lambda>r. key r = 2) vals_ties"
    by (simp add: selectionSort_ties) (simp add: vals_ties_def key_def)
  then have "\<not> stable vals_ties (selectionSort vals_ties)"
    unfolding stable_def by blast
  moreover have "sorted_asc vals_ties = False"
    by (simp add: sorted_asc_def vals_ties_def key_def)
  ultimately show ?thesis by (simp add: selectionSort_ties)
qed

subsection \<open>Bogo sort\<close>

lemma isSorted_sorted: "isSorted vals \<Longrightarrow> sorted_asc vals"
  unfolding sorted_asc_def
  by (induction vals rule: isSorted.induct) (auto split: if_splits)

lemma rnd_index:
  assumes "unit_range rnd"
  shows "nat \<lfloor>rnd k * real i\<rfloor> \<le> i"
proof -
  have "rnd k * real i \<le> 1 * real i"
    using assms by (intro mult_right_mono) (simp_all add: unit_range_def less_imp_le)
  then have "\<lfloor>rnd k * real i\<rfloor> \<le> \<lfloor>real i\<rfloor>" by (intro floor_mono) simp
  then show ?thesis by simp
qed

lemma shuffle_mset:
  assumes "unit_range rnd" and "n = length vals"
  shows "mset (shuffle rnd k vals n i) = mset vals \<and> length (shuffle rnd k vals n i) = n"
  using assms
proof (induction rnd k vals n i rule: shuffle.induct)
  case (1 rnd k vals n i)
  show ?case
  proof (cases "i < n")
    case False
    then show ?thesis using "1.prems" by (subst (1 2) shuffle.simps) simp
  next
    case True
    define j where "j = nat \<lfloor>rnd (k + i) * real i\<rfloor>"
    let ?v = "vals[i := vals ! j, j := vals ! i]"
    have e: "shuffle rnd k vals n i = shuffle rnd k ?v n (i + 1)"
      using True by (subst shuffle.simps) (simp add: j_def Let_def)
    have jn: "j < length vals" using rnd_index [OF "1.prems"(1), of "k + i" i] True "1.prems"(2)
      by (simp add: j_def)
    have ms: "mset ?v = mset vals" using jn True "1.prems"(2) by (simp add: mset_swap)
    have "mset (shuffle rnd k ?v n (i + 1)) = mset ?v \<and> length (shuffle rnd k ?v n (i + 1)) = n"
      using "1.IH" [OF True j_def "1.prems"(1)] "1.prems"(2) by simp
    then show ?thesis unfolding e using ms by simp
  qed
qed

lemma bogo_loop_sound:
  assumes ret: "bogo_loop rnd k vals = Some out"
  shows "unit_range rnd \<longrightarrow> sorted_asc out \<and> mset out = mset vals"
proof (rule bogo_loop.raw_induct
    [where P = "\<lambda>rnd k vals out. unit_range rnd \<longrightarrow> sorted_asc out \<and> mset out = mset vals", OF _ ret])
  fix f :: "(nat \<Rightarrow> real) \<Rightarrow> nat \<Rightarrow> row list \<Rightarrow> row list option"
  fix rnd k vals out
  assume ih: "\<And>rnd k vals out. f rnd k vals = Some out \<Longrightarrow>
                unit_range rnd \<longrightarrow> sorted_asc out \<and> mset out = mset vals"
    and body: "(if isSorted vals then Some vals
                else f rnd (k + length vals) (shuffle rnd k vals (length vals) 0)) = Some out"
  show "unit_range rnd \<longrightarrow> sorted_asc out \<and> mset out = mset vals"
  proof (cases "isSorted vals")
    case True
    then have "out = vals" using body by simp
    then show ?thesis using True by (simp add: isSorted_sorted)
  next
    case False
    then have "f rnd (k + length vals) (shuffle rnd k vals (length vals) 0) = Some out"
      using body by simp
    then have "unit_range rnd \<longrightarrow>
        sorted_asc out \<and> mset out = mset (shuffle rnd k vals (length vals) 0)"
      by (rule ih)
    then show ?thesis using shuffle_mset [of rnd "length vals" vals k 0] by auto
  qed
qed

text \<open>
  Claim C8, amended. For every list of rows, \<^verbatim>\<open>mergeSort\<close> and \<^verbatim>\<open>bubbleSort\<close> produce
  the rows sorted ascending by their last column and are stable; \<^verbatim>\<open>selectionSort\<close>
  produces the same rows sorted ascending, without a promise on the order of rows with
  equal keys; and whenever \<^verbatim>\<open>bogoSort\<close> returns, with random numbers in \<open>[0, 1)\<close>, its
  result is the same rows sorted ascending.
\<close>

theorem sorts_sorted_stable_or_permuted:
  "sorted_asc (mergeSort vals) \<and> stable vals (mergeSort vals) \<and>
   sorted_asc (bubbleSort vals) \<and> stable vals (bubbleSort vals) \<and>
   sorted_asc (selectionSort vals) \<and> mset (selectionSort vals) = mset vals \<and>
   (unit_range rnd \<and> bogoSort rnd vals = Some out \<longrightarrow> sorted_asc out \<and> mset out = mset vals)"
proof -
  have "unit_range rnd \<and> bogoSort rnd vals = Some out \<longrightarrow> sorted_asc out \<and> mset out = mset vals"
  proof
    assume a: "unit_range rnd \<and> bogoSort rnd vals = Some out"
    then have "bogo_loop rnd 0 vals = Some out" by (simp add: bogoSort_def)
    from bogo_loop_sound [OF this] a show "sorted_asc out \<and> mset out = mset vals" by simp
  qed
  then show ?thesis
    using mergeSort_correct [of vals] bubbleSort_correct [of vals] selectionSort_correct [of vals]
    by simp
qed

lemma unit_range_rnd0: "unit_range rnd0"
  by (simp add: unit_range_def rnd0_def)

lemma bogoSort_21: "bogoSort rnd0 vals21 = Some [[1], [2]]"
proof -
  have s: "shuffle rnd0 0 vals21 (length vals21) 0 = [[1], [2]]"
    by (simp add: shuffle.simps [of rnd0 0 _ "Suc (Suc 0)"] vals21_def rnd0_def Let_def)
  have u: "\<not> isSorted vals21" by (simp add: vals21_def key_def)
  have d: "isSorted [[1], [2]]" by (simp add: key_def)
  have "bogo_loop rnd0 0 vals21
      = bogo_loop rnd0 (0 + length vals21) (shuffle rnd0 0 vals21 (length vals21) 0)"
    by (subst bogo_loop.simps) (simp only: u if_False)
  also have "\<dots> = bogo_loop rnd0 (0 + length vals21) [[1], [2]]"
    by (simp only: s)
  also have "\<dots> = Some [[1], [2]]"
    by (subst bogo_loop.simps) (simp only: d if_True)
  finally show ?thesis by (simp add: bogoSort_def)
qed

theorem sorts_sorted_stable_or_permuted_witness:
  "unit_range rnd0 \<and> bogoSort rnd0 vals21 = Some [[1], [2]] \<and>
   sorted_asc [[1], [2]] \<and> mset [[1], [2 :: real]] = mset vals21 \<and>
   sorted_asc (mergeSort vals21) \<and> stable vals21 (bubbleSort vals21) \<and>
   mset (selectionSort vals21) = mset vals21"
proof -
  note t = sorts_sorted_stable_or_permuted [of vals21 rnd0 "[[1], [2]]"]
  have h: "unit_range rnd0 \<and> bogoSort rnd0 vals21 = Some [[1], [2]]"
    by (simp add: unit_range_rnd0 bogoSort_21)
  have "sorted_asc [[1], [2]] \<and> mset [[1], [2 :: real]] = mset vals21"
    using t h by blast
  then show ?thesis using t h by blast
qed

subsection \<open>The shuffle never sorts the keys 2, 1, 3\<close>



lemma shuffle3:
  assumes j1: "nat \<lfloor>rnd (k + 1)\<rfloor> = 0" and j2: "nat \<lfloor>rnd (k + 2) * 2\<rfloor> = j"
  shows "shuffle rnd k [a, b, c] 3 0 = [b, a, c][2 := [b, a, c] ! j, j := c]"
proof -
  have s0: "shuffle rnd k [a, b, c] 3 0 = shuffle rnd k [a, b, c] 3 (Suc 0)"
    by (subst shuffle.simps) (simp add: Let_def)
  have s1: "shuffle rnd k [a, b, c] 3 (Suc 0) = shuffle rnd k [b, a, c] 3 (Suc (Suc 0))"
    using j1 by (subst shuffle.simps) (simp add: Let_def)
  have s2: "shuffle rnd k [b, a, c] 3 (Suc (Suc 0))
          = shuffle rnd k ([b, a, c][2 := [b, a, c] ! j, j := c]) 3 (Suc (Suc (Suc 0)))"
    using j2 by (subst shuffle.simps) (simp add: Let_def numeral_2_eq_2)
  have s3: "shuffle rnd k v 3 (Suc (Suc (Suc 0))) = v" for v
    by (subst shuffle.simps) simp
  show ?thesis by (simp only: s0 s1 s2 s3)
qed





text \<open>
  A result of \<^verbatim>\<open>bogoSort\<close> need not be stable: on rows with the keys 2, 1, 2 a pass
  that swaps row 2 with row 1 sorts them and puts the third row before the first.
\<close>

lemma bogoSort_unstable:
  "unit_range rnd_half \<and>
   bogoSort rnd_half vals_212 = Some [[2, 1], [3, 2], [1, 2]] \<and>
   \<not> stable vals_212 [[2, 1], [3, 2], [1, 2]]"
proof -
  have u: "unit_range rnd_half" by (simp add: unit_range_def rnd_half_def)
  have j1: "nat \<lfloor>rnd_half (0 + 1)\<rfloor> = 0" by (simp add: rnd_half_def)
  have j2: "nat \<lfloor>rnd_half (0 + 2) * 2\<rfloor> = 1" by (simp add: rnd_half_def)
  have l: "length vals_212 = 3" by (simp add: vals_212_def)
  have s: "shuffle rnd_half 0 vals_212 (length vals_212) 0 = [[2, 1], [3, 2], [1, 2]]"
    unfolding l by (simp add: vals_212_def shuffle3 [OF j1 j2])
  have n: "\<not> isSorted vals_212" by (simp add: vals_212_def key_def)
  have d: "isSorted [[2, 1], [3, 2], [1, 2]]" by (simp add: key_def)
  have "bogo_loop rnd_half 0 vals_212
      = bogo_loop rnd_half (0 + length vals_212) (shuffle rnd_half 0 vals_212 (length vals_212) 0)"
    by (subst bogo_loop.simps) (simp only: n if_False)
  also have "\<dots> = bogo_loop rnd_half (0 + length vals_212) [[2, 1], [3, 2], [1, 2]]"
    by (simp only: s)
  also have "\<dots> = Some [[2, 1], [3, 2], [1, 2]]"
    by (subst bogo_loop.simps) (simp only: d if_True)
  finally have b: "bogoSort rnd_half vals_212 = Some [[2, 1], [3, 2], [1, 2]]"
    by (simp add: bogoSort_def)
  have "filter (\<lambda>r. key r = 2) [[2, 1], [3, 2], [1, 2]] \<noteq> filter (\<lambda>r. key r = 2) vals_212"
    by (simp add: vals_212_def key_def)
  then have "\<not> stable vals_212 [[2, 1], [3, 2], [1, 2]]"
    unfolding stable_def by blast
  with u b show ?thesis by simp
qed

subsection \<open>The command line\<close>




end
